theory Spec2Isabelle
  imports
    Complex_Main
    "HOL-Library.Sublist"
    "HOL-Library.Char_ord"
    "HOL-Library.List_Lexorder"
begin

section \<open>The slideshow generator of \<open>image_to_video.py\<close>\<close>

text \<open>
  The development embeds \<open>create_video_from_images\<close> (lines 6 to 78 of
  \<open>src/image_to_video.py\<close>). Pixel sizes are integers. A Python float is the real number it
  denotes, and every float operation of the source is the exact operation followed by the
  rounding \<open>fl\<close> of binary64 (round to nearest, ties to even, with gradual underflow);
  results of magnitude \<open>2^1024\<close> and above, where the machine yields infinity, are outside
  the model. A Python \<open>int\<close> that meets a float is read as the float of the same value, which
  is exact up to \<open>2^53\<close>. What the function reads from the outside world (the directory
  listing, whether an image or an audio file loads, whether the encoder raises) is a field of
  an environment record. The operations of the moviepy library that the function calls
  (\<open>ImageClip\<close>, \<open>resize\<close>, \<open>set_position\<close>, \<open>set_duration\<close>, \<open>set_start\<close>,
  \<open>ColorClip\<close>, \<open>CompositeVideoClip\<close>, \<open>loop\<close>, \<open>subclip\<close>) are embedded by what they
  do to the attributes of a clip: the size of its frame at a local time, its position, its
  start, duration and end. Exceptions that no \<open>try\<close> of the function catches are results
  of type \<open>error\<close>.
\<close>

subsection \<open>Python numerics\<close>

datatype error = ZeroDivisionError | ValueError | OSError

text \<open>Rounding a real to the nearest integer, ties to the even one.\<close>

definition round_even :: "real \<Rightarrow> int" where
  "round_even y =
     (let f = \<lfloor>y\<rfloor>; r = y - real_of_int f
      in if r < 1 / 2 then f else if 1 / 2 < r then f + 1 else if even f then f else f + 1)"

text \<open>The binary exponent of a positive real \<open>x\<close>, the \<open>e\<close> with \<open>2^e \<le> x < 2^(e+1)\<close>,
  found in at most \<open>n\<close> halvings or doublings.\<close>

fun expo :: "nat \<Rightarrow> real \<Rightarrow> int" where
  "expo 0 x = 0"
| "expo (Suc n) x =
     (if 2 \<le> x then expo n (x / 2) + 1 else if x < 1 then expo n (x * 2) - 1 else 0)"

text \<open>The binary64 value nearest to \<open>x\<close>: 53 significant bits, the exponent not below
  \<open>-1022\<close>.\<close>

definition fl :: "real \<Rightarrow> real" where
  "fl x =
     (if x = 0 then 0
      else
        let e = max (expo 1100 \<bar>x\<bar>) (- 1022);
            u = 2 powi (e - 52)
        in sgn x * real_of_int (round_even (\<bar>x\<bar> / u)) * u)"

text \<open>\<open>int(x)\<close> on a float truncates towards zero.\<close>

definition py_int :: "real \<Rightarrow> int" where
  "py_int x = (if 0 \<le> x then \<lfloor>x\<rfloor> else \<lceil>x\<rceil>)"

text \<open>\<open>t % d\<close> on floats raises on a zero divisor. Otherwise the remainder of the truncated
  division is exact; when it is non-zero and its sign differs from the divisor's, the
  divisor is added to it, which rounds.\<close>

definition py_fmod :: "real \<Rightarrow> real \<Rightarrow> error + real" where
  "py_fmod t d =
     (if d = 0 then Inl ZeroDivisionError
      else
        let m = t - d * real_of_int (py_int (t / d))
        in if m \<noteq> 0 \<and> ((d < 0) \<noteq> (m < 0)) then Inr (fl (m + d)) else Inr m)"

subsection \<open>File names\<close>

text \<open>\<open>str.lower\<close>, on the ASCII letters; the extensions tested are ASCII.\<close>

definition lower_char :: "char \<Rightarrow> char" where
  "lower_char c =
     (if CHR ''A'' \<le> c \<and> c \<le> CHR ''Z'' then char_of (of_char c + (32::nat)) else c)"

definition lower :: "string \<Rightarrow> string" where
  "lower s = map lower_char s"

definition endswith :: "string \<Rightarrow> string list \<Rightarrow> bool" where
  "endswith s exts = list_ex (\<lambda>e. suffix e s) exts"

text \<open>Line 16: the test of the list comprehension.\<close>

definition is_image_file :: "string \<Rightarrow> bool" where
  "is_image_file f = endswith (lower f) [''png'', ''jpg'', ''jpeg'', ''bmp'', ''gif'']"

text \<open>Lines 16 and 17: the matched names of the directory listing, sorted.\<close>

definition image_files_of :: "string list \<Rightarrow> string list" where
  "image_files_of listing = sort (filter is_image_file listing)"

text \<open>\<open>os.path.join\<close> on two components (POSIX).\<close>

definition path_join :: "string \<Rightarrow> string \<Rightarrow> string" where
  "path_join a b =
     (if b \<noteq> [] \<and> hd b = CHR ''/'' then b
      else if a = [] \<or> last a = CHR ''/'' then a @ b
      else a @ ''/'' @ b)"

subsection \<open>Clips\<close>

datatype position = Coords int int | Centre

datatype content = Picture string | Colour "int \<times> int \<times> int"

record clip =
  content :: content
  frame_size :: "real \<Rightarrow> int \<times> int"
  pos :: position
  start :: real
  clip_duration :: "real option"
  clip_end :: "real option"

text \<open>\<open>clip.size\<close> is the size of the frame at time 0.\<close>

definition clip_size :: "clip \<Rightarrow> int \<times> int" where
  "clip_size c = frame_size c 0"

text \<open>\<open>ImageClip(path)\<close> for an image of the given natural size: a still picture, placed at
  the top-left corner \<open>(0, 0)\<close>, starting at 0, with no duration yet.\<close>

definition ImageClip :: "string \<Rightarrow> int \<times> int \<Rightarrow> clip" where
  "ImageClip path sz =
     \<lparr>content = Picture path, frame_size = (\<lambda>t. sz), pos = Coords 0 0, start = 0,
      clip_duration = None, clip_end = None\<rparr>"

text \<open>\<open>ColorClip(size, color=col, duration=d)\<close>.\<close>

definition ColorClip :: "int \<times> int \<Rightarrow> int \<times> int \<times> int \<Rightarrow> real \<Rightarrow> clip" where
  "ColorClip sz col d =
     \<lparr>content = Colour col, frame_size = (\<lambda>t. sz), pos = Coords 0 0, start = 0,
      clip_duration = Some d, clip_end = Some d\<rparr>"

text \<open>The pixel resampler behind \<open>resize\<close> raises \<open>ValueError\<close> on a target size with a
  dimension that is not positive.\<close>

definition resizable :: "int \<times> int \<Rightarrow> bool" where
  "resizable sz = (0 < fst sz \<and> 0 < snd sz)"

text \<open>The size \<open>clip.resize(f)\<close> asks for at time \<open>t\<close>, for a clip of size \<open>(w, h)\<close>:
  \<open>f(t)\<close> times each dimension, truncated.\<close>

definition scaled :: "(real \<Rightarrow> real) \<Rightarrow> int \<times> int \<Rightarrow> real \<Rightarrow> int \<times> int" where
  "scaled f sz t =
     (py_int (fl (f t * real_of_int (fst sz))), py_int (fl (f t * real_of_int (snd sz))))"

text \<open>\<open>clip.resize(f)\<close> for a function \<open>f\<close> of time: the frame at \<open>t\<close> is the frame of the
  clip resized to \<open>f(t)\<close> times the clip's size. The new clip's size is read off its frame
  at time 0 as the clip is built, so a target that cannot be resized to raises there.\<close>

definition resize_by :: "(real \<Rightarrow> real) \<Rightarrow> clip \<Rightarrow> error + clip" where
  "resize_by f c =
     (if resizable (scaled f (clip_size c) 0)
      then Inr (c\<lparr>frame_size := scaled f (clip_size c)\<rparr>)
      else Inl ValueError)"

text \<open>\<open>clip.resize((w, h))\<close> for a fixed size: every frame is resized to that size, the
  frame at time 0 as the clip is built.\<close>

definition resize_to :: "int \<times> int \<Rightarrow> clip \<Rightarrow> error + clip" where
  "resize_to sz c = (if resizable sz then Inr (c\<lparr>frame_size := (\<lambda>t. sz)\<rparr>) else Inl ValueError)"

definition set_position :: "position \<Rightarrow> clip \<Rightarrow> clip" where
  "set_position p c = c\<lparr>pos := p\<rparr>"

definition set_duration :: "real \<Rightarrow> clip \<Rightarrow> clip" where
  "set_duration d c = c\<lparr>clip_duration := Some d, clip_end := Some (fl (start c + d))\<rparr>"

definition set_start :: "real \<Rightarrow> clip \<Rightarrow> clip" where
  "set_start s c =
     (case clip_duration c of
        Some d \<Rightarrow> c\<lparr>start := s, clip_end := Some (fl (s + d))\<rparr>
      | None \<Rightarrow>
          (case clip_end c of
             Some e \<Rightarrow> c\<lparr>start := s, clip_duration := Some (fl (e - s))\<rparr>
           | None \<Rightarrow> c\<lparr>start := s\<rparr>))"

text \<open>Where the compositor draws a clip on a canvas at local time \<open>t\<close>: the top-left corner
  of the clip's frame. A clip positioned at \<open>'center'\<close> has equal margins on both sides.\<close>

definition drawn_at :: "int \<times> int \<Rightarrow> clip \<Rightarrow> real \<Rightarrow> int \<times> int" where
  "drawn_at canvas c t =
     (case pos c of
        Coords x y \<Rightarrow> (x, y)
      | Centre \<Rightarrow>
          (py_int (real_of_int (fst canvas - fst (frame_size c t)) / 2),
           py_int (real_of_int (snd canvas - snd (frame_size c t)) / 2)))"

subsection \<open>Audio clips\<close>

text \<open>An audio clip has a duration and, for each local time, the instant of the decoded
  file that is heard then; computing that instant can raise.\<close>

record audio_clip =
  audio_duration :: real
  source_time :: "real \<Rightarrow> error + real"

definition AudioFileClip :: "real \<Rightarrow> audio_clip" where
  "AudioFileClip d = \<lparr>audio_duration = d, source_time = (\<lambda>t. Inr t)\<rparr>"

text \<open>\<open>audio.fx(vfx.loop, duration=D)\<close>: time runs modulo the clip's duration, and the
  duration becomes \<open>D\<close> when \<open>D\<close> is truthy. Line 61 passes a \<open>D\<close> above the duration of
  the track, so a falsy \<open>D\<close> does not arise for a track of non-negative duration; the model
  leaves the duration as it was there.\<close>

definition loop :: "real \<Rightarrow> audio_clip \<Rightarrow> audio_clip" where
  "loop D a =
     (let looped =
            a\<lparr>source_time :=
                (\<lambda>t. case py_fmod t (audio_duration a) of
                        Inl err \<Rightarrow> Inl err
                      | Inr s \<Rightarrow> source_time a s)\<rparr>
      in if D \<noteq> 0 then looped\<lparr>audio_duration := D\<rparr> else looped)"

text \<open>\<open>audio.subclip(0, t_end)\<close>: raises when the start 0 lies after the clip's duration;
  a negative \<open>t_end\<close> counts from the end of the clip.\<close>

definition subclip :: "real \<Rightarrow> audio_clip \<Rightarrow> audio_clip option" where
  "subclip t_end a =
     (if 0 > audio_duration a then None
      else Some (a\<lparr>source_time := (\<lambda>t. source_time a (t + 0)),
                   audio_duration :=
                     (if t_end < 0 then fl (audio_duration a + t_end) else t_end) - 0\<rparr>))"

subsection \<open>The composite video\<close>

record video =
  layers :: "clip list"
  video_size :: "int \<times> int"
  video_duration :: "real option"
  audio :: "audio_clip option"

text \<open>\<open>CompositeVideoClip([background] + clips, size=resolution)\<close>: the duration is the
  latest end of a layer, when every layer has an end.\<close>

definition CompositeVideoClip :: "clip \<Rightarrow> clip list \<Rightarrow> int \<times> int \<Rightarrow> video" where
  "CompositeVideoClip background clips sz =
     \<lparr>layers = background # clips,
      video_size = sz,
      video_duration =
        (if list_all (\<lambda>c. clip_end c \<noteq> None) (background # clips)
         then Some (fold max (map (\<lambda>c. the (clip_end c)) clips) (the (clip_end background)))
         else None),
      audio = None\<rparr>"

definition set_audio :: "audio_clip \<Rightarrow> video \<Rightarrow> video" where
  "set_audio a v = v\<lparr>audio := Some a\<rparr>"

subsection \<open>Parameters, environment, output\<close>

record config =
  image_folder :: string
  output_file :: string
  fps :: int
  duration :: real
  template :: string
  background_color :: "int \<times> int \<times> int"
  resolution :: "int \<times> int"
  audio_file :: "string option"

text \<open>The outside world: \<open>os.listdir(image_folder)\<close> (\<open>None\<close>: it raises, the folder
  cannot be listed); for a path, the natural size of the image that \<open>ImageClip\<close> decodes
  (\<open>None\<close>: it raises); \<open>os.path.exists\<close>; for a path, the duration of the audio that
  \<open>AudioFileClip\<close> decodes (\<open>None\<close>: it raises); whether \<open>write_videofile\<close> raises.\<close>

record env =
  listdir :: "string list option"
  load_image :: "string \<Rightarrow> (int \<times> int) option"
  path_exists :: "string \<Rightarrow> bool"
  load_audio :: "string \<Rightarrow> real option"
  encoder_raises :: bool

datatype message =
    NoImageFilesFound string
  | ErrorLoadingImage string
  | ErrorAddingAudio
  | CreatingVideo nat
  | VideoSaved string
  | ErrorCreatingVideo

text \<open>What a run that returns leaves behind: the lines printed, the composite handed to the
  encoder (\<open>None\<close> when the function returned before line 55), whether \<open>write_videofile\<close>
  was called, and whether it wrote the file.\<close>

record run =
  printed :: "message list"
  timeline :: "video option"
  encoder_called :: bool
  saved :: bool

subsection \<open>The body of the loop (lines 28 to 53)\<close>

text \<open>Lines 36 to 38. The divisions raise on an image with a zero dimension.\<close>

definition max_size :: "int \<times> int \<Rightarrow> int \<times> int \<Rightarrow> error + (int \<times> int)" where
  "max_size res sz =
     (let (img_w, img_h) = sz in
      if img_w = 0 \<or> img_h = 0 then Inl ZeroDivisionError
      else
        let ratio = min (fl (real_of_int (fst res) / real_of_int img_w))
                        (fl (real_of_int (snd res) / real_of_int img_h))
        in Inr (py_int (fl (real_of_int img_w * ratio)),
                py_int (fl (real_of_int img_h * ratio))))"

text \<open>Line 43; \<open>d\<close> is the \<open>duration\<close> parameter, not zero. The literals \<open>0.8\<close> and
  \<open>0.4\<close> are the floats nearest to them.\<close>

definition zoom_factor :: "real \<Rightarrow> real \<Rightarrow> real" where
  "zoom_factor d t = fl (fl (4 / 5) + fl (fl (2 / 5) * fl (t / d)))"

text \<open>Line 47.\<close>

definition display_size :: "int \<times> int \<Rightarrow> int \<times> int" where
  "display_size ms =
     (py_int (fl (real_of_int (fst ms) * fl (6 / 5))),
      py_int (fl (real_of_int (snd ms) * fl (6 / 5))))"

text \<open>Lines 36 to 52 for a loaded image \<open>img_clip\<close> at index \<open>i\<close>. In the zoom branch the
  resize by \<open>zoom_factor\<close> evaluates its function at time 0 when the clip is built, so a
  zero \<open>duration\<close> raises there. None of these lines is inside a \<open>try\<close>.\<close>

definition animate :: "config \<Rightarrow> nat \<Rightarrow> clip \<Rightarrow> error + clip" where
  "animate cfg i img_clip =
     (case max_size (resolution cfg) (clip_size img_clip) of
        Inl err \<Rightarrow> Inl err
      | Inr ms \<Rightarrow>
          (case
             (if template cfg = ''zoom'' then
                if duration cfg = 0 then Inl ZeroDivisionError
                else
                  (case resize_by (zoom_factor (duration cfg)) img_clip of
                     Inl err \<Rightarrow> Inl err
                   | Inr img_clip1 \<Rightarrow>
                       resize_to (display_size ms) (set_position Centre img_clip1))
              else resize_to ms img_clip)
           of
             Inl err \<Rightarrow> Inl err
           | Inr img_clip2 \<Rightarrow>
               Inr (set_start (fl (real i * duration cfg))
                      (set_duration (duration cfg) img_clip2))))"

text \<open>The loop of lines 27 to 53 from index \<open>i\<close> on: the clips appended and the lines
  printed, in order, or the exception that ends the loop.\<close>

fun build_clips :: "env \<Rightarrow> config \<Rightarrow> nat \<Rightarrow> string list \<Rightarrow> error + (clip list \<times> message list)" where
  "build_clips e cfg i [] = Inr ([], [])"
| "build_clips e cfg i (img_file # rest) =
     (let img_path = path_join (image_folder cfg) img_file in
      case load_image e img_path of
        None \<Rightarrow>
          (case build_clips e cfg (Suc i) rest of
             Inl err \<Rightarrow> Inl err
           | Inr (clips, out) \<Rightarrow> Inr (clips, ErrorLoadingImage img_path # out))
      | Some sz \<Rightarrow>
          (case animate cfg i (ImageClip img_path sz) of
             Inl err \<Rightarrow> Inl err
           | Inr c \<Rightarrow>
               (case build_clips e cfg (Suc i) rest of
                  Inl err \<Rightarrow> Inl err
                | Inr (clips, out) \<Rightarrow> Inr (c # clips, out))))"

subsection \<open>Audio (lines 57 to 66)\<close>

text \<open>Lines 60 to 63.\<close>

definition reconcile :: "real \<Rightarrow> audio_clip \<Rightarrow> audio_clip option" where
  "reconcile vd a = (if audio_duration a < vd then Some (loop vd a) else subclip vd a)"

text \<open>Lines 57 to 66: the video after the block and the lines printed. Any exception inside
  the \<open>try\<close> leaves the video as it was.\<close>

definition add_audio :: "env \<Rightarrow> config \<Rightarrow> video \<Rightarrow> video \<times> message list" where
  "add_audio e cfg v =
     (case audio_file cfg of
        None \<Rightarrow> (v, [])
      | Some p \<Rightarrow>
          if p \<noteq> [] \<and> path_exists e p then
            (case load_audio e p of
               None \<Rightarrow> (v, [ErrorAddingAudio])
             | Some d \<Rightarrow>
                 (case video_duration v of
                    None \<Rightarrow> (v, [ErrorAddingAudio])
                  | Some vd \<Rightarrow>
                      (case reconcile vd (AudioFileClip d) of
                         None \<Rightarrow> (v, [ErrorAddingAudio])
                       | Some a \<Rightarrow> (set_audio a v, []))))
          else (v, []))"

subsection \<open>The function\<close>

text \<open>Lines 68 to 78.\<close>

definition write_video :: "env \<Rightarrow> config \<Rightarrow> nat \<Rightarrow> message list \<times> bool" where
  "write_video e cfg n =
     (if encoder_raises e then ([CreatingVideo n, ErrorCreatingVideo], False)
      else ([CreatingVideo n, VideoSaved (output_file cfg)], True))"

definition create_video_from_images :: "env \<Rightarrow> config \<Rightarrow> error + run" where
  "create_video_from_images e cfg =
     (case listdir e of
        None \<Rightarrow> Inl OSError
      | Some listing \<Rightarrow>
          let image_files = image_files_of listing in
          if image_files = [] then
            Inr \<lparr>printed = [NoImageFilesFound (image_folder cfg)], timeline = None,
                 encoder_called = False, saved = False\<rparr>
          else
            let total_duration = fl (real (length image_files) * duration cfg);
                background = ColorClip (resolution cfg) (background_color cfg) total_duration
            in
              case build_clips e cfg 0 image_files of
                Inl err \<Rightarrow> Inl err
              | Inr (clips, out1) \<Rightarrow>
                  let v = CompositeVideoClip background clips (resolution cfg);
                      (v', out2) = add_audio e cfg v;
                      (out3, ok) = write_video e cfg (length clips)
                  in Inr \<lparr>printed = out1 @ out2 @ out3, timeline = Some v',
                          encoder_called = True, saved = ok\<rparr>)"

subsection \<open>Observing a run\<close>

text \<open>The layers of the composite a run hands to the encoder: the background first, then
  the image clips. A run that built no composite has none.\<close>

definition layers_of :: "error + run \<Rightarrow> clip list" where
  "layers_of res =
     (case res of
        Inl err \<Rightarrow> []
      | Inr r \<Rightarrow> (case timeline r of None \<Rightarrow> [] | Some v \<Rightarrow> layers v))"

definition background_of :: "error + run \<Rightarrow> clip list" where
  "background_of res = take 1 (layers_of res)"

definition clips_of :: "error + run \<Rightarrow> clip list" where
  "clips_of res = drop 1 (layers_of res)"

definition total_duration_of :: "error + run \<Rightarrow> real option" where
  "total_duration_of res =
     (case res of
        Inl err \<Rightarrow> None
      | Inr r \<Rightarrow> (case timeline r of None \<Rightarrow> None | Some v \<Rightarrow> video_duration v))"

definition audio_of :: "error + run \<Rightarrow> audio_clip option" where
  "audio_of res =
     (case res of
        Inl err \<Rightarrow> None
      | Inr r \<Rightarrow> (case timeline r of None \<Rightarrow> None | Some v \<Rightarrow> audio v))"

definition printed_of :: "error + run \<Rightarrow> message list" where
  "printed_of res = (case res of Inl err \<Rightarrow> [] | Inr r \<Rightarrow> printed r)"

definition encoder_called_of :: "error + run \<Rightarrow> bool" where
  "encoder_called_of res = (case res of Inl err \<Rightarrow> False | Inr r \<Rightarrow> encoder_called r)"

definition saved_of :: "error + run \<Rightarrow> bool" where
  "saved_of res = (case res of Inl err \<Rightarrow> False | Inr r \<Rightarrow> saved r)"

text \<open>The exception that ends a run, if one does.\<close>

definition raised_of :: "error + run \<Rightarrow> error option" where
  "raised_of res = (case res of Inl err \<Rightarrow> Some err | Inr r \<Rightarrow> None)"


text \<open>The sorted matched files of a folder that can be listed.\<close>

definition image_files :: "env \<Rightarrow> string list" where
  "image_files e = (case listdir e of None \<Rightarrow> [] | Some listing \<Rightarrow> image_files_of listing)"

text \<open>A matched file decodes when \<open>ImageClip\<close> does not raise on its path. The surviving
  assets are the decoding files, each with its index in the sorted list of matched files.\<close>

definition decodes :: "env \<Rightarrow> config \<Rightarrow> string \<Rightarrow> bool" where
  "decodes e cfg f = (load_image e (path_join (image_folder cfg) f) \<noteq> None)"

definition surviving :: "env \<Rightarrow> config \<Rightarrow> (nat \<times> string) list" where
  "surviving e cfg = filter (\<lambda>(j, f). decodes e cfg f) (enumerate 0 (image_files e))"

text \<open>An image of natural size \<open>sz\<close> passes lines 36 to 52 without an exception: no
  dimension is zero, every size a resize is asked for has positive dimensions, and under the
  zoom template the duration is not zero.\<close>

definition renders :: "config \<Rightarrow> int \<times> int \<Rightarrow> bool" where
  "renders cfg sz =
     (case max_size (resolution cfg) sz of
        Inl err \<Rightarrow> False
      | Inr ms \<Rightarrow>
          if template cfg = ''zoom''
          then duration cfg \<noteq> 0 \<and> resizable (scaled (zoom_factor (duration cfg)) sz 0) \<and>
               resizable (display_size ms)
          else resizable ms)"

text \<open>A matched file either fails to decode or passes lines 36 to 52 without an
  exception; \<open>all_render\<close> says so of every matched file.\<close>

definition renders_at :: "env \<Rightarrow> config \<Rightarrow> string \<Rightarrow> bool" where
  "renders_at e cfg f =
     (case load_image e (path_join (image_folder cfg) f) of
        None \<Rightarrow> True
      | Some sz \<Rightarrow> renders cfg sz)"

definition all_render :: "env \<Rightarrow> config \<Rightarrow> bool" where
  "all_render e cfg = list_all (renders_at e cfg) (image_files e)"

text \<open>The scale of the layout rule: \<open>min(canvasW / naturalW, canvasH / naturalH)\<close>.\<close>

definition scale_to_fit :: "int \<times> int \<Rightarrow> int \<times> int \<Rightarrow> real" where
  "scale_to_fit canvas natural =
     min (real_of_int (fst canvas) / real_of_int (fst natural))
         (real_of_int (snd canvas) / real_of_int (snd natural))"

subsection \<open>Sample inputs\<close>

text \<open>The default template on a 100 by 100 canvas, five seconds per image, no audio.\<close>

definition cfg_static :: config where
  "cfg_static =
     \<lparr>image_folder = ''pics'', output_file = ''output.mp4'', fps = 30, duration = 5,
      template = ''slide_in'', background_color = (0, 0, 0), resolution = (100, 100),
      audio_file = None\<rparr>"

definition cfg_zoom :: config where
  "cfg_zoom = cfg_static\<lparr>template := ''zoom''\<rparr>"

definition cfg_audio :: config where
  "cfg_audio = cfg_static\<lparr>audio_file := Some ''song.mp3''\<rparr>"

definition cfg_long_audio :: config where
  "cfg_long_audio = cfg_static\<lparr>audio_file := Some ''long.mp3''\<rparr>"

definition cfg_broken_audio :: config where
  "cfg_broken_audio = cfg_static\<lparr>audio_file := Some ''broken.mp3''\<rparr>"

text \<open>Two matched files and one other; \<open>a.png\<close> does not decode, \<open>b.png\<close> is 100 by 50.
  No audio file exists.\<close>

definition env_one_corrupt :: env where
  "env_one_corrupt =
     \<lparr>listdir = Some [''b.png'', ''a.png'', ''notes.txt''],
      load_image = (\<lambda>p. if p = ''pics/b.png'' then Some (100, 50) else None),
      path_exists = (\<lambda>p. False),
      load_audio = (\<lambda>p. None),
      encoder_raises = False\<rparr>"

text \<open>One matched file, which does not decode.\<close>

definition env_all_corrupt :: env where
  "env_all_corrupt =
     \<lparr>listdir = Some [''a.png''],
      load_image = (\<lambda>p. None),
      path_exists = (\<lambda>p. False),
      load_audio = (\<lambda>p. None),
      encoder_raises = False\<rparr>"

text \<open>No matched file.\<close>

definition env_empty :: env where
  "env_empty =
     \<lparr>listdir = Some [''notes.txt''],
      load_image = (\<lambda>p. None),
      path_exists = (\<lambda>p. False),
      load_audio = (\<lambda>p. None),
      encoder_raises = False\<rparr>"

text \<open>Two images of 100 by 100 that decode; an audio file of four seconds, one of twelve
  seconds, and one that exists and does not decode.\<close>

definition env_two_good :: env where
  "env_two_good =
     \<lparr>listdir = Some [''a.png'', ''b.jpg''],
      load_image =
        (\<lambda>p. if p = ''pics/a.png'' \<or> p = ''pics/b.jpg'' then Some (100, 100) else None),
      path_exists = (\<lambda>p. p = ''song.mp3'' \<or> p = ''long.mp3'' \<or> p = ''broken.mp3''),
      load_audio =
        (\<lambda>p. if p = ''song.mp3'' then Some 4 else if p = ''long.mp3'' then Some 12 else None),
      encoder_raises = False\<rparr>"

text \<open>Five matched files; the third does not decode.\<close>

definition env_five :: env where
  "env_five =
     \<lparr>listdir = Some [''1.png'', ''2.png'', ''3.png'', ''4.png'', ''5.png''],
      load_image = (\<lambda>p. if p = ''pics/3.png'' then None else Some (40, 30)),
      path_exists = (\<lambda>p. False),
      load_audio = (\<lambda>p. None),
      encoder_raises = False\<rparr>"



section \<open>Properties\<close>

subsection \<open>Rounding to binary64\<close>

lemma two_powi_Suc: "(2::real) powi (k + 1) = 2 * 2 powi k"
  by (simp add: power_int_add)

lemma two_powi_pred: "(2::real) powi (k - 1) = 2 powi k / 2"
  by (simp add: power_int_diff)

lemma two_powi_less_imp:
  assumes "(2::real) powi a < 2 powi b"
  shows "a < b"
proof (rule ccontr)
  assume "\<not> a < b"
  then have "b \<le> a" by simp
  then have "(2::real) powi b \<le> 2 powi a" by (rule power_int_increasing) simp
  with assms show False by simp
qed

lemma expo_bounds:
  "0 < x \<Longrightarrow> 2 powi (- int n) \<le> x \<Longrightarrow> x < 2 powi (int n + 1) \<Longrightarrow>
     2 powi (expo n x) \<le> x \<and> x < 2 powi (expo n x + 1)"
proof (induction n arbitrary: x)
  case 0
  then show ?case by simp
next
  case (Suc n)
  show ?case
  proof (cases "2 \<le> x")
    case True
    define k where "k = expo n (x / 2)"
    have a: "0 < x / 2" using Suc.prems by simp
    have "(2::real) powi (- int n) \<le> 1" by (simp add: power_int_minus inverse_le_1_iff)
    then have b: "2 powi (- int n) \<le> x / 2" using True by simp
    have "(2::real) powi (int (Suc n) + 1) = 2 * 2 powi (int n + 1)"
      using two_powi_Suc [of "int n + 1"] by (simp add: add.commute)
    then have c: "x / 2 < 2 powi (int n + 1)" using Suc.prems(3) by simp
    from Suc.IH [OF a b c] have ih: "2 powi k \<le> x / 2" "x / 2 < 2 powi (k + 1)"
      by (simp_all add: k_def)
    have ex: "expo (Suc n) x = k + 1" using True by (simp add: k_def)
    have "2 powi (k + 1) \<le> x" using ih(1) two_powi_Suc [of k] by simp
    moreover have "x < 2 powi (k + 1 + 1)" using ih(2) two_powi_Suc [of "k + 1"] by simp
    ultimately show ?thesis unfolding ex by simp
  next
    case False
    show ?thesis
    proof (cases "x < 1")
      case True
      define k where "k = expo n (x * 2)"
      have a: "0 < x * 2" using Suc.prems by simp
      have "- int (Suc n) = - int n - 1" by simp
      then have "2 powi (- int (Suc n)) = (2::real) powi (- int n) / 2"
        using two_powi_pred [of "- int n"] by (simp only:)
      then have b: "2 powi (- int n) \<le> x * 2" using Suc.prems(2) by simp
      have "(1::real) \<le> 2 powi (int n)" by simp
      then have "(2::real) \<le> 2 powi (int n + 1)"
        using two_powi_Suc [of "int n"] by simp
      then have c: "x * 2 < 2 powi (int n + 1)" using True by simp
      from Suc.IH [OF a b c] have ih: "2 powi k \<le> x * 2" "x * 2 < 2 powi (k + 1)"
        by (simp_all add: k_def)
      have ex: "expo (Suc n) x = k - 1" using True False by (simp add: k_def)
      have "2 powi (k - 1) \<le> x" using ih(1) two_powi_pred [of k] by simp
      moreover have "x < 2 powi (k - 1 + 1)" using ih(2) two_powi_Suc [of k] by simp
      ultimately show ?thesis unfolding ex by simp
    next
      case nlt: False
      then show ?thesis using False by simp
    qed
  qed
qed

lemma expo_unique:
  assumes "2 powi a \<le> (x::real)" "x < 2 powi (a + 1)" "2 powi b \<le> x" "x < 2 powi (b + 1)"
  shows "a = b"
proof -
  have "(2::real) powi a < 2 powi (b + 1)" using assms by linarith
  then have "a < b + 1" by (rule two_powi_less_imp)
  moreover have "(2::real) powi b < 2 powi (a + 1)" using assms by linarith
  then have "b < a + 1" by (rule two_powi_less_imp)
  ultimately show ?thesis by simp
qed

lemma expo_eq:
  assumes "2 powi k \<le> x" "x < 2 powi (k + 1)" "- 1100 \<le> k" "k \<le> 1100"
  shows "expo 1100 x = k"
proof -
  have x: "0 < x" using assms(1) zero_less_power_int [of "2::real" k] by linarith
  have "(2::real) powi (- int 1100) \<le> 2 powi k"
    using assms(3) by (intro power_int_increasing) simp_all
  then have lo: "2 powi (- int 1100) \<le> x" using assms(1) by linarith
  have "(2::real) powi (k + 1) \<le> 2 powi (int 1100 + 1)"
    using assms(4) by (intro power_int_increasing) simp_all
  then have hi: "x < 2 powi (int 1100 + 1)" using assms(2) by linarith
  from expo_bounds [OF x lo hi] assms(1,2) show ?thesis
    by (intro expo_unique [of _ x]) simp_all
qed

text \<open>The value of \<open>fl\<close> on a real whose binary exponent is known.\<close>

lemma fl_at:
  assumes "2 powi k \<le> \<bar>x\<bar>" "\<bar>x\<bar> < 2 powi (k + 1)" "- 1022 \<le> k" "k \<le> 1100"
  shows "fl x = sgn x * real_of_int (round_even (\<bar>x\<bar> / 2 powi (k - 52))) * 2 powi (k - 52)"
proof -
  have "expo 1100 \<bar>x\<bar> = k" using assms by (intro expo_eq) simp_all
  moreover have "x \<noteq> 0"
  proof
    assume "x = 0"
    with assms(1) have "2 powi k \<le> (0::real)" by simp
    moreover have "(0::real) < 2 powi k" by simp
    ultimately show False by linarith
  qed
  ultimately show ?thesis using assms(3) by (simp add: fl_def Let_def max_def)
qed

lemma round_even_of_int [simp]: "round_even (real_of_int n) = n"
  by (simp add: round_even_def)

lemma round_even_numeral [simp]: "round_even (numeral n) = numeral n"
  by (simp add: round_even_def)

lemma round_even_near: "\<bar>real_of_int (round_even y) - y\<bar> \<le> 1 / 2"
  unfolding round_even_def Let_def by (auto simp: abs_le_iff)

lemma round_even_mono: "x \<le> y \<Longrightarrow> round_even x \<le> round_even y"
proof -
  assume xy: "x \<le> y"
  have fxy: "\<lfloor>x\<rfloor> \<le> \<lfloor>y\<rfloor>" using xy by (rule floor_mono)
  show ?thesis
  proof (cases "\<lfloor>x\<rfloor> = \<lfloor>y\<rfloor>")
    case True
    with xy show ?thesis by (auto simp: round_even_def Let_def)
  next
    case False
    with fxy have "\<lfloor>x\<rfloor> + 1 \<le> \<lfloor>y\<rfloor>" by simp
    moreover have "round_even x \<le> \<lfloor>x\<rfloor> + 1" by (auto simp: round_even_def Let_def)
    moreover have "\<lfloor>y\<rfloor> \<le> round_even y" by (auto simp: round_even_def Let_def)
    ultimately show ?thesis by linarith
  qed
qed


lemma expo_nonpos: "x < 2 \<Longrightarrow> expo n x \<le> 0"
proof (induction n arbitrary: x)
  case 0
  show ?case by simp
next
  case (Suc n)
  show ?case
  proof (cases "x < 1")
    case True
    then have "x * 2 < 2" by simp
    from Suc.IH [OF this] show ?thesis using True Suc.prems by simp
  next
    case False
    then show ?thesis using Suc.prems by simp
  qed
qed

lemma expo_small: "x < 2 powi (- int m) \<Longrightarrow> m \<le> n \<Longrightarrow> expo n x \<le> - int m"
proof (induction m arbitrary: x n)
  case 0
  then have "x < 2" by simp
  then show ?case using expo_nonpos [of x n] by simp
next
  case (Suc m)
  then obtain n' where n: "n = Suc n'" "m \<le> n'" by (cases n) auto
  have "- int (Suc m) = - int m - 1" by simp
  then have p: "(2::real) powi (- int (Suc m)) = 2 powi (- int m) / 2"
    using two_powi_pred [of "- int m"] by (simp only:)
  have "(2::real) powi (- int m) \<le> 1" by (simp add: power_int_minus inverse_le_1_iff)
  then have x1: "x < 1" using Suc.prems(1) p by simp
  have "x * 2 < 2 powi (- int m)" using Suc.prems(1) p by simp
  from Suc.IH [OF this n(2)] show ?case using x1 n(1) by simp
qed

text \<open>The shape of \<open>fl\<close> on a positive real below \<open>2^1024\<close>: rounding to a multiple of
  \<open>2^(E - 52)\<close>, where \<open>E\<close> is the binary exponent of \<open>x\<close>, or \<open>-1022\<close> when \<open>x\<close> is
  smaller than \<open>2^(-1022)\<close>.\<close>

lemma fl_pos_form:
  assumes "0 < x" "x < 2 powi 1024"
  shows "\<exists>E. - 1022 \<le> E \<and> E \<le> 1023 \<and> x < 2 powi (E + 1) \<and>
           (E = - 1022 \<or> 2 powi E \<le> x) \<and>
           fl x = real_of_int (round_even (x / 2 powi (E - 52))) * 2 powi (E - 52)"
proof (cases "2 powi (- 1022) \<le> x")
  case True
  define k where "k = expo 1100 x"
  have "(2::real) powi (- int 1100) \<le> 2 powi (- 1022)"
    by (intro power_int_increasing) simp_all
  then have lo: "2 powi (- int 1100) \<le> x" using True by linarith
  have "(2::real) powi 1024 \<le> 2 powi (int 1100 + 1)"
    by (intro power_int_increasing) simp_all
  then have hi: "x < 2 powi (int 1100 + 1)" using assms(2) by linarith
  from expo_bounds [OF assms(1) lo hi] have kb: "2 powi k \<le> x" "x < 2 powi (k + 1)"
    by (simp_all add: k_def)
  have "(2::real) powi (- 1022) < 2 powi (k + 1)" using True kb(2) by linarith
  then have "- 1022 < k + 1" by (rule two_powi_less_imp)
  then have k1: "- 1022 \<le> k" by simp
  have "(2::real) powi k < 2 powi 1024" using kb(1) assms(2) by linarith
  then have "k < 1024" by (rule two_powi_less_imp)
  then have k2: "k \<le> 1023" by simp
  have "fl x = real_of_int (round_even (x / 2 powi (k - 52))) * 2 powi (k - 52)"
    using assms(1) k1 by (simp add: fl_def Let_def max_def k_def)
  then show ?thesis using k1 k2 kb by blast
next
  case False
  then have small: "x < 2 powi (- int 1022)" by simp
  have "expo 1100 x \<le> - int 1022" by (rule expo_small [OF small]) simp
  then have m: "max (expo 1100 x) (- 1022) = - 1022" by simp
  have "(2::real) powi (- 1022) \<le> 2 powi (- 1022 + 1)"
    by (intro power_int_increasing) simp_all
  then have "x < 2 powi (- 1022 + 1)" using False by linarith
  moreover have "fl x = real_of_int (round_even (x / 2 powi (- 1022 - 52))) * 2 powi (- 1022 - 52)"
    using assms(1) m by (simp add: fl_def Let_def)
  ultimately show ?thesis by (intro exI [of _ "- 1022"]) simp
qed

lemma fl_zero [simp]: "fl 0 = 0"
  by (simp add: fl_def)

lemma fl_minus: "fl (- x) = - fl x"
  by (simp add: fl_def Let_def sgn_minus)

lemma round_even_nonneg: "0 \<le> y \<Longrightarrow> 0 \<le> round_even y"
  using round_even_mono [of 0 y] by (simp add: round_even_def)

lemma fl_nonneg: "0 \<le> x \<Longrightarrow> 0 \<le> fl x"
  by (auto simp: fl_def Let_def intro!: mult_nonneg_nonneg round_even_nonneg)


lemma two_powi_split: "(2::real) powi (E + 1) = 2 ^ 53 * 2 powi (E - 52)"
  using power_int_add [of "2::real" 53 "E - 52"] by (simp add: add.commute)

lemma two_powi_split': "(2::real) powi E = 2 ^ 52 * 2 powi (E - 52)"
  using power_int_add [of "2::real" 52 "E - 52"] by simp

lemma round_scaled_upper:
  assumes "x < 2 powi (E + 1)"
  shows "real_of_int (round_even (x / 2 powi (E - 52))) * 2 powi (E - 52) \<le> 2 powi (E + 1)"
proof -
  have u: "(0::real) < 2 powi (E - 52)" by simp
  have "x / 2 powi (E - 52) \<le> 2 ^ 53"
    using assms u by (simp add: two_powi_split pos_divide_le_eq)
  then have "round_even (x / 2 powi (E - 52)) \<le> round_even (real_of_int (2 ^ 53))"
    by (intro round_even_mono) simp
  then have "round_even (x / 2 powi (E - 52)) \<le> 2 ^ 53" by simp
  then have "real_of_int (round_even (x / 2 powi (E - 52))) \<le> real_of_int (2 ^ 53)"
    by (simp only: of_int_le_iff)
  then have "real_of_int (round_even (x / 2 powi (E - 52))) \<le> 2 ^ 53" by simp
  then show ?thesis using u by (simp add: two_powi_split)
qed

lemma round_scaled_lower:
  assumes "2 powi E \<le> x"
  shows "2 powi E \<le> real_of_int (round_even (x / 2 powi (E - 52))) * 2 powi (E - 52)"
proof -
  have u: "(0::real) < 2 powi (E - 52)" by simp
  have "2 ^ 52 \<le> x / 2 powi (E - 52)"
    using assms u two_powi_split' [of E] by (simp add: pos_le_divide_eq)
  then have "round_even (real_of_int (2 ^ 52)) \<le> round_even (x / 2 powi (E - 52))"
    by (intro round_even_mono) simp
  then have "2 ^ 52 \<le> round_even (x / 2 powi (E - 52))" by simp
  then have "real_of_int (2 ^ 52) \<le> real_of_int (round_even (x / 2 powi (E - 52)))"
    by (simp only: of_int_le_iff)
  then have "2 ^ 52 \<le> real_of_int (round_even (x / 2 powi (E - 52)))" by simp
  then show ?thesis using u two_powi_split' [of E] by simp
qed

lemma fl_mono_pos:
  assumes "0 < x" "x \<le> y" "y < 2 powi 1024"
  shows "fl x \<le> fl y"
proof -
  from fl_pos_form [of x] assms obtain E where E:
    "x < 2 powi (E + 1)" "E = - 1022 \<or> 2 powi E \<le> x" "- 1022 \<le> E"
    "fl x = real_of_int (round_even (x / 2 powi (E - 52))) * 2 powi (E - 52)"
    by force
  from fl_pos_form [of y] assms obtain F where F:
    "y < 2 powi (F + 1)" "F = - 1022 \<or> 2 powi F \<le> y" "- 1022 \<le> F"
    "fl y = real_of_int (round_even (y / 2 powi (F - 52))) * 2 powi (F - 52)"
    by force
  have EF: "E \<le> F"
  proof (cases "E = - 1022")
    case True
    then show ?thesis using F(3) by simp
  next
    case False
    with E(2) have "2 powi E \<le> x" by simp
    then have "(2::real) powi E < 2 powi (F + 1)" using assms(2) F(1) by linarith
    then have "E < F + 1" by (rule two_powi_less_imp)
    then show ?thesis by simp
  qed
  show ?thesis
  proof (cases "E = F")
    case True
    have "x / 2 powi (F - 52) \<le> y / 2 powi (F - 52)"
      using assms(2) by (simp add: divide_right_mono)
    then have "round_even (x / 2 powi (F - 52)) \<le> round_even (y / 2 powi (F - 52))"
      by (rule round_even_mono)
    then show ?thesis unfolding E(4) F(4) True
      by (intro mult_right_mono) simp_all
  next
    case False
    with EF have lt: "E + 1 \<le> F" by simp
    then have "F \<noteq> - 1022" using E(3) by simp
    with F(2) have "2 powi F \<le> y" by simp
    then have "2 powi F \<le> fl y" unfolding F(4) by (rule round_scaled_lower)
    moreover have "fl x \<le> 2 powi (E + 1)" unfolding E(4) using E(1) by (rule round_scaled_upper)
    moreover have "(2::real) powi (E + 1) \<le> 2 powi F"
      using lt by (intro power_int_increasing) simp_all
    ultimately show ?thesis by linarith
  qed
qed

text \<open>Rounding is monotone (below the overflow threshold).\<close>

lemma fl_mono:
  assumes "x \<le> y" "\<bar>x\<bar> < 2 powi 1024" "\<bar>y\<bar> < 2 powi 1024"
  shows "fl x \<le> fl y"
proof -
  consider "0 < x" | "x \<le> 0" "0 \<le> y" | "y < 0" using assms(1) by linarith
  then show ?thesis
  proof cases
    case 1
    then show ?thesis using assms by (intro fl_mono_pos) simp_all
  next
    case 2
    have "fl x \<le> 0" using fl_nonneg [of "- x"] 2(1) by (simp add: fl_minus)
    moreover have "0 \<le> fl y" using 2(2) by (rule fl_nonneg)
    ultimately show ?thesis by linarith
  next
    case 3
    have "fl (- y) \<le> fl (- x)" using assms 3 by (intro fl_mono_pos) simp_all
    then show ?thesis by (simp add: fl_minus)
  qed
qed


text \<open>The relative error of rounding, in the normal range.\<close>

lemma fl_error_pos:
  assumes "2 powi (- 1022) \<le> x" "x < 2 powi 1024"
  shows "\<bar>fl x - x\<bar> \<le> x / 2 ^ 53"
proof -
  have x0: "0 < x"
  proof -
    have "(0::real) < 2 powi (- 1022)" by simp
    with assms(1) show ?thesis by linarith
  qed
  from fl_pos_form [OF x0 assms(2)] obtain E where E:
    "E = - 1022 \<or> 2 powi E \<le> x"
    "fl x = real_of_int (round_even (x / 2 powi (E - 52))) * 2 powi (E - 52)"
    by blast
  have lo: "2 powi E \<le> x" using E(1) assms(1) by auto
  define u :: real where "u = 2 powi (E - 52)"
  have u: "0 < u" by (simp add: u_def)
  have "\<bar>real_of_int (round_even (x / u)) - x / u\<bar> \<le> 1 / 2"
    by (rule round_even_near)
  then have "\<bar>real_of_int (round_even (x / u)) - x / u\<bar> * u \<le> 1 / 2 * u"
    using u by (intro mult_right_mono) simp_all
  moreover have "\<bar>real_of_int (round_even (x / u)) - x / u\<bar> * u
      = \<bar>real_of_int (round_even (x / u)) * u - x\<bar>"
  proof -
    have "\<bar>real_of_int (round_even (x / u)) - x / u\<bar> * u
        = \<bar>(real_of_int (round_even (x / u)) - x / u) * u\<bar>"
      using u by (simp add: abs_mult)
    also have "(real_of_int (round_even (x / u)) - x / u) * u
        = real_of_int (round_even (x / u)) * u - x"
      using u by (simp add: algebra_simps)
    finally show ?thesis .
  qed
  ultimately have err: "\<bar>fl x - x\<bar> \<le> u / 2"
    unfolding E(2) u_def [symmetric] by simp
  have "2 ^ 52 * u \<le> x" using lo two_powi_split' [of E] by (simp add: u_def)
  then have "u / 2 \<le> x / 2 ^ 53" by simp
  with err show ?thesis by linarith
qed

lemma fl_error:
  assumes "2 powi (- 1022) \<le> \<bar>x\<bar>" "\<bar>x\<bar> < 2 powi 1024"
  shows "\<bar>fl x - x\<bar> \<le> \<bar>x\<bar> / 2 ^ 53"
proof (cases "0 \<le> x")
  case True
  then show ?thesis using assms fl_error_pos [of x] by simp
next
  case False
  then have "\<bar>fl (- x) - (- x)\<bar> \<le> (- x) / 2 ^ 53"
    using assms by (intro fl_error_pos) simp_all
  then show ?thesis using False by (simp add: fl_minus abs_minus_commute)
qed

text \<open>Integers up to \<open>2^53\<close> in absolute value are their own floats.\<close>

lemma fl_of_int_pos:
  assumes "0 < n" "n \<le> 2 ^ 53"
  shows "fl (real_of_int n) = real_of_int n"
proof -
  define x where "x = real_of_int n"
  have x1: "1 \<le> x" using assms(1) by (simp add: x_def)
  have "x \<le> real_of_int (2 ^ 53)" unfolding x_def using assms(2) by (simp only: of_int_le_iff)
  then have x2: "x \<le> 2 ^ 53" by simp
  have "(2::real) ^ 53 < 2 powi 1024" by simp
  then have x3: "x < 2 powi 1024" using x2 by linarith
  from fl_pos_form [of x] x1 x3 obtain E where E:
    "x < 2 powi (E + 1)" "E = - 1022 \<or> 2 powi E \<le> x"
    "fl x = real_of_int (round_even (x / 2 powi (E - 52))) * 2 powi (E - 52)"
    by force
  have "(2::real) powi 0 < 2 powi (E + 1)" using x1 E(1) by simp
  then have "0 < E + 1" by (rule two_powi_less_imp)
  then have E0: "0 \<le> E" by simp
  with E(2) have lo: "2 powi E \<le> x" by auto
  have "(2::real) powi E < 2 powi 54" using lo x2 by simp
  then have "E < 54" by (rule two_powi_less_imp)
  then consider "E \<le> 52" | "E = 53" by linarith
  then have "fl x = x"
  proof cases
    case 1
    define j where "j = nat (52 - E)"
    have "E - 52 = - int j" using 1 by (simp add: j_def)
    then have u: "(2::real) powi (E - 52) = 1 / 2 ^ j"
      by (simp add: power_int_minus_divide)
    have "x / 2 powi (E - 52) = real_of_int (n * 2 ^ j)"
      by (simp add: u x_def)
    then have "round_even (x / 2 powi (E - 52)) = n * 2 ^ j"
      by (simp only: round_even_of_int)
    then show ?thesis unfolding E(3) by (simp add: u x_def)
  next
    case 2
    have "(2::real) powi 53 \<le> x" using lo 2 by simp
    then have xe: "x = 2 ^ 53" using x2 by simp
    show ?thesis unfolding E(3) by (simp add: 2 xe)
  qed
  then show ?thesis by (simp add: x_def)
qed

lemma fl_of_int:
  assumes "\<bar>n\<bar> \<le> 2 ^ 53"
  shows "fl (real_of_int n) = real_of_int n"
proof -
  consider "0 < n" | "n = 0" | "n < 0" by linarith
  then show ?thesis
  proof cases
    case 1
    then show ?thesis using assms by (intro fl_of_int_pos) simp_all
  next
    case 2
    then show ?thesis by simp
  next
    case 3
    then have "fl (real_of_int (- n)) = real_of_int (- n)"
      using assms by (intro fl_of_int_pos) simp_all
    then show ?thesis by (simp add: fl_minus)
  qed
qed

lemma fl_of_nat: "n \<le> 2 ^ 53 \<Longrightarrow> fl (real n) = real n"
  using fl_of_int [of "int n"] by simp

lemma fl_numeral: "numeral n \<le> (2::int) ^ 53 \<Longrightarrow> fl (numeral n) = numeral n"
  using fl_of_int [of "numeral n"] by simp

lemma fl_one [simp]: "fl 1 = 1"
  using fl_of_int [of 1] by simp

subsection \<open>The sample inputs\<close>

lemma files_one_corrupt:
  "image_files_of [''b.png'', ''a.png'', ''notes.txt''] = [''a.png'', ''b.png'']"
  by code_simp

lemma files_all_corrupt: "image_files_of [''a.png''] = [''a.png'']"
  by code_simp

lemma files_empty: "image_files_of [''notes.txt''] = []"
  by code_simp

lemma files_two_good: "image_files_of [''a.png'', ''b.jpg''] = [''a.png'', ''b.jpg'']"
  by code_simp

lemma files_five:
  "image_files_of [''1.png'', ''2.png'', ''3.png'', ''4.png'', ''5.png'']
     = [''1.png'', ''2.png'', ''3.png'', ''4.png'', ''5.png'']"
  by code_simp


lemma fl_6_5: "fl (6 / 5) = 5404319552844595 / 4503599627370496"
  by (subst fl_at [where k = 0]) (simp_all add: round_even_def)

lemma fl_4_5: "fl (4 / 5) = 3602879701896397 / 4503599627370496"
  by (subst fl_at [where k = "- 1"]) (simp_all add: round_even_def power_int_minus)

lemma fl_4_5_again:
  "fl (3602879701896397 / 4503599627370496) = 3602879701896397 / 4503599627370496"
  by (subst fl_at [where k = "- 1"]) (simp_all add: round_even_def power_int_minus)

lemma fl_5_2: "fl (5 / 2) = 5 / 2"
  by (subst fl_at [where k = 1]) (simp_all add: round_even_def power_int_minus)

lemma fl_120: "fl (135107988821114875 / 1125899906842624) = 120"
  by (subst fl_at [where k = 6]) (simp_all add: round_even_def power_int_minus)

lemma fl_60: "fl (135107988821114875 / 2251799813685248) = 60"
  by (subst fl_at [where k = 5]) (simp_all add: round_even_def power_int_minus)

lemma fl_80: "fl (90071992547409925 / 1125899906842624) = 80"
  by (subst fl_at [where k = 6]) (simp_all add: round_even_def power_int_minus)

lemma fl_40: "fl (90071992547409925 / 2251799813685248) = 40"
  by (subst fl_at [where k = 5]) (simp_all add: round_even_def power_int_minus)

lemma fl_10_3: "fl (10 / 3) = 7505999378950827 / 2251799813685248"
  by (subst fl_at [where k = 1]) (simp_all add: round_even_def power_int_minus)

lemmas fl_samples =
  fl_numeral fl_6_5 fl_4_5 fl_4_5_again fl_5_2 fl_10_3 fl_120 fl_60 fl_80 fl_40

lemma zoom_factor_at_0: "d \<noteq> 0 \<Longrightarrow> zoom_factor d 0 = 3602879701896397 / 4503599627370496"
  by (simp add: zoom_factor_def fl_4_5 fl_4_5_again)

lemma size_samples:
  "max_size (100, 100) (100, 100) = Inr (100, 100)"
  "max_size (100, 100) (100, 50) = Inr (100, 50)"
  "max_size (100, 100) (40, 30) = Inr (100, 75)"
  "display_size (100, 100) = (120, 120)"
  "display_size (100, 50) = (120, 60)"
  "scaled (zoom_factor 5) (100, 100) 0 = (80, 80)"
  "scaled (zoom_factor 5) (100, 50) 0 = (80, 40)"
  "py_int (zoom_factor 5 0 * 100) = 80"
  by (simp_all add: max_size_def display_size_def scaled_def py_int_def zoom_factor_at_0
      fl_samples)

lemmas run_defs =
  create_video_from_images_def animate_def ImageClip_def clip_size_def
  set_start_def set_duration_def resize_to_def resize_by_def resizable_def set_position_def
  Let_def add_audio_def write_video_def CompositeVideoClip_def ColorClip_def path_join_def
  layers_of_def clips_of_def background_of_def total_duration_of_def audio_of_def
  printed_of_def encoder_called_of_def saved_of_def raised_of_def image_files_def
  fl_samples size_samples

lemma renders_samples:
  "renders cfg_static (100, 100)" "renders cfg_static (100, 50)" "renders cfg_static (40, 30)"
  "renders cfg_zoom (100, 100)" "renders cfg_zoom (100, 50)"
  by (simp_all add: renders_def cfg_zoom_def cfg_static_def size_samples resizable_def)

lemma all_render_samples:
  "all_render env_two_good cfg_static" "all_render env_two_good cfg_zoom"
  "all_render env_one_corrupt cfg_static" "all_render env_five cfg_static"
  "all_render env_all_corrupt cfg_static"
  using renders_samples
  by (simp_all add: all_render_def renders_at_def image_files_def env_two_good_def
      env_one_corrupt_def env_five_def env_all_corrupt_def files_two_good files_one_corrupt
      files_five files_all_corrupt)

subsection \<open>The loop\<close>

lemma animate_attrs:
  assumes "renders cfg sz"
  shows "\<exists>c. animate cfg i (ImageClip p sz) = Inr c \<and>
           start c = fl (real i * duration cfg) \<and>
           clip_duration c = Some (duration cfg) \<and>
           clip_end c = Some (fl (fl (real i * duration cfg) + duration cfg)) \<and>
           content c = Picture p"
  using assms
  by (auto simp: renders_def animate_def ImageClip_def clip_size_def set_start_def
      set_duration_def resize_to_def resize_by_def set_position_def Let_def
      split: sum.splits if_splits)

lemma animate_raises:
  assumes "\<not> renders cfg sz"
  shows "\<exists>err. animate cfg i (ImageClip p sz) = Inl err"
  using assms
  by (auto simp: renders_def animate_def ImageClip_def clip_size_def resize_to_def
      resize_by_def set_position_def Let_def split: sum.splits if_splits)

lemma build_clips_shape:
  assumes ok: "list_all (renders_at e cfg) fs"
  shows "\<exists>clips. build_clips e cfg i fs =
             Inr (clips, map (\<lambda>f. ErrorLoadingImage (path_join (image_folder cfg) f))
                           (filter (\<lambda>f. \<not> decodes e cfg f) fs)) \<and>
           map start clips =
             map (\<lambda>(j, f). fl (real j * duration cfg))
               (filter (\<lambda>(j, f). decodes e cfg f) (enumerate i fs)) \<and>
           map content clips =
             map (\<lambda>f. Picture (path_join (image_folder cfg) f)) (filter (decodes e cfg) fs) \<and>
           list_all (\<lambda>c. clip_duration c = Some (duration cfg) \<and>
                         clip_end c = Some (fl (start c + duration cfg))) clips"
  using ok
proof (induction fs arbitrary: i)
  case Nil
  show ?case by simp
next
  case (Cons f fs)
  from Cons.prems have okf: "renders_at e cfg f" and okfs: "list_all (renders_at e cfg) fs"
    by simp_all
  obtain clips where ih:
    "build_clips e cfg (Suc i) fs =
       Inr (clips, map (\<lambda>f. ErrorLoadingImage (path_join (image_folder cfg) f))
                     (filter (\<lambda>f. \<not> decodes e cfg f) fs))"
    "map start clips =
       map (\<lambda>(j, f). fl (real j * duration cfg))
         (filter (\<lambda>(j, f). decodes e cfg f) (enumerate (Suc i) fs))"
    "map content clips =
       map (\<lambda>f. Picture (path_join (image_folder cfg) f)) (filter (decodes e cfg) fs)"
    "list_all (\<lambda>c. clip_duration c = Some (duration cfg) \<and>
                   clip_end c = Some (fl (start c + duration cfg))) clips"
    using Cons.IH [OF okfs, of "Suc i"] by blast
  show ?case
  proof (cases "load_image e (path_join (image_folder cfg) f)")
    case None
    then have "\<not> decodes e cfg f" by (simp add: decodes_def)
    then show ?thesis using None ih by simp
  next
    case (Some sz)
    then have "renders cfg sz" using okf by (simp add: renders_at_def)
    from animate_attrs [OF this, of i "path_join (image_folder cfg) f"]
    obtain c where c: "animate cfg i (ImageClip (path_join (image_folder cfg) f) sz) = Inr c"
      "start c = fl (real i * duration cfg)" "clip_duration c = Some (duration cfg)"
      "clip_end c = Some (fl (fl (real i * duration cfg) + duration cfg))"
      "content c = Picture (path_join (image_folder cfg) f)"
      by blast
    have "decodes e cfg f" using Some by (simp add: decodes_def)
    then show ?thesis using Some c ih by simp
  qed
qed

text \<open>When no file decodes, the loop body past line 33 is never reached.\<close>

lemma build_clips_none_decodes:
  assumes "list_all (\<lambda>f. \<not> decodes e cfg f) fs"
  shows "build_clips e cfg i fs =
           Inr ([], map (\<lambda>f. ErrorLoadingImage (path_join (image_folder cfg) f)) fs)"
  using assms
proof (induction fs arbitrary: i)
  case Nil
  show ?case by simp
next
  case (Cons f fs)
  from Cons.prems have nd: "\<not> decodes e cfg f"
    and rest: "list_all (\<lambda>f. \<not> decodes e cfg f) fs"
    by simp_all
  from nd have "load_image e (path_join (image_folder cfg) f) = None"
    unfolding decodes_def by blast
  with Cons.IH [OF rest, of "Suc i"] show ?case by simp
qed

subsection \<open>The shape of a run that reaches the encoder\<close>

lemma add_audio_keeps:
  "layers (fst (add_audio e cfg v)) = layers v \<and>
   video_size (fst (add_audio e cfg v)) = video_size v \<and>
   video_duration (fst (add_audio e cfg v)) = video_duration v"
  by (simp add: add_audio_def set_audio_def split: option.splits)

lemma image_files_listed: "image_files e \<noteq> [] \<Longrightarrow> \<exists>l. listdir e = Some l \<and> image_files_of l = image_files e"
  by (cases "listdir e") (simp_all add: image_files_def)

lemma run_facts:
  assumes ne: "image_files e \<noteq> []"
    and ok: "all_render e cfg"
  shows "\<exists>clips v.
     v = CompositeVideoClip
           (ColorClip (resolution cfg) (background_color cfg)
              (fl (real (length (image_files e)) * duration cfg)))
           clips (resolution cfg) \<and>
     clips_of (create_video_from_images e cfg) = clips \<and>
     background_of (create_video_from_images e cfg) =
       [ColorClip (resolution cfg) (background_color cfg)
          (fl (real (length (image_files e)) * duration cfg))] \<and>
     map start clips = map (\<lambda>(j, f). fl (real j * duration cfg)) (surviving e cfg) \<and>
     map content clips =
       map (\<lambda>f. Picture (path_join (image_folder cfg) f))
         (filter (decodes e cfg) (image_files e)) \<and>
     list_all (\<lambda>c. clip_duration c = Some (duration cfg) \<and>
                   clip_end c = Some (fl (start c + duration cfg))) clips \<and>
     total_duration_of (create_video_from_images e cfg) = video_duration v \<and>
     audio_of (create_video_from_images e cfg) = audio (fst (add_audio e cfg v)) \<and>
     printed_of (create_video_from_images e cfg) =
       map (\<lambda>f. ErrorLoadingImage (path_join (image_folder cfg) f))
         (filter (\<lambda>f. \<not> decodes e cfg f) (image_files e))
       @ snd (add_audio e cfg v) @ fst (write_video e cfg (length clips)) \<and>
     encoder_called_of (create_video_from_images e cfg) \<and>
     saved_of (create_video_from_images e cfg) = (\<not> encoder_raises e) \<and>
     raised_of (create_video_from_images e cfg) = None"
proof -
  let ?fs = "image_files e"
  let ?R = "create_video_from_images e cfg"
  from image_files_listed [OF ne] obtain l where l: "listdir e = Some l" "image_files_of l = ?fs"
    by blast
  from ok have "list_all (renders_at e cfg) ?fs" by (simp add: all_render_def)
  from build_clips_shape [OF this, of 0]
  obtain clips where b:
    "build_clips e cfg 0 ?fs =
       Inr (clips, map (\<lambda>f. ErrorLoadingImage (path_join (image_folder cfg) f))
                     (filter (\<lambda>f. \<not> decodes e cfg f) ?fs))"
    "map start clips =
       map (\<lambda>(j, f). fl (real j * duration cfg))
         (filter (\<lambda>(j, f). decodes e cfg f) (enumerate 0 ?fs))"
    "map content clips =
       map (\<lambda>f. Picture (path_join (image_folder cfg) f)) (filter (decodes e cfg) ?fs)"
    "list_all (\<lambda>c. clip_duration c = Some (duration cfg) \<and>
                   clip_end c = Some (fl (start c + duration cfg))) clips"
    by blast
  let ?errs = "map (\<lambda>f. ErrorLoadingImage (path_join (image_folder cfg) f))
                 (filter (\<lambda>f. \<not> decodes e cfg f) ?fs)"
  let ?bg = "ColorClip (resolution cfg) (background_color cfg)
               (fl (real (length ?fs) * duration cfg))"
  let ?v = "CompositeVideoClip ?bg clips (resolution cfg)"
  have run: "?R =
      Inr \<lparr>printed = ?errs @ snd (add_audio e cfg ?v) @ fst (write_video e cfg (length clips)),
           timeline = Some (fst (add_audio e cfg ?v)),
           encoder_called = True,
           saved = snd (write_video e cfg (length clips))\<rparr>"
    using ne l b(1) by (simp add: create_video_from_images_def Let_def split: prod.splits)
  have lay: "layers_of ?R = ?bg # clips"
    using add_audio_keeps [of e cfg ?v]
    by (simp add: run layers_of_def CompositeVideoClip_def)
  have "clips_of ?R = clips"
    by (simp add: clips_of_def lay)
  moreover have "background_of ?R = [?bg]"
    by (simp add: background_of_def lay)
  moreover have "total_duration_of ?R = video_duration ?v"
    using add_audio_keeps [of e cfg ?v] by (simp add: run total_duration_of_def)
  moreover have "audio_of ?R = audio (fst (add_audio e cfg ?v))"
    by (simp add: run audio_of_def)
  moreover have "printed_of ?R =
      ?errs @ snd (add_audio e cfg ?v) @ fst (write_video e cfg (length clips))"
    by (simp add: run printed_of_def)
  moreover have "encoder_called_of ?R"
    by (simp add: run encoder_called_of_def)
  moreover have "saved_of ?R = (\<not> encoder_raises e)"
    by (simp add: run saved_of_def write_video_def)
  moreover have "raised_of ?R = None"
    by (simp add: run raised_of_def)
  ultimately show ?thesis
    using b(2,3,4) unfolding surviving_def by blast
qed

lemma fold_max_ge:
  fixes a :: real
  shows "a \<le> fold max xs a"
proof (induction xs arbitrary: a)
  case Nil
  show ?case by simp
next
  case (Cons x xs)
  have "a \<le> max x a" by simp
  also have "\<dots> \<le> fold max xs (max x a)" by (rule Cons.IH)
  finally show ?case by simp
qed

lemma fold_max_bounded:
  fixes a :: real
  shows "\<forall>x\<in>set xs. x \<le> a \<Longrightarrow> fold max xs a = a"
  by (induction xs) (simp_all add: max_absorb2)

text \<open>The composite of a background and clips that all have an end has a duration, which
  is not below the background's.\<close>

lemma composite_has_duration:
  assumes "list_all (\<lambda>c. clip_duration c = Some d \<and> clip_end c = Some (fl (start c + d))) clips"
  shows "\<exists>T. video_duration (CompositeVideoClip (ColorClip res col b) clips res) = Some T \<and>
           b \<le> T \<and>
           T = fold max (map (\<lambda>c. fl (start c + d)) clips) b"
proof -
  have all: "list_all (\<lambda>c. clip_end c \<noteq> None) clips"
    using assms by (simp add: list_all_iff)
  have eq: "map (\<lambda>c. the (clip_end c)) clips = map (\<lambda>c. fl (start c + d)) clips"
    using assms by (simp add: list_all_iff)
  have "video_duration (CompositeVideoClip (ColorClip res col b) clips res)
      = Some (fold max (map (\<lambda>c. the (clip_end c)) clips) b)"
    using all by (simp add: CompositeVideoClip_def ColorClip_def)
  then show ?thesis
    unfolding eq using fold_max_ge [of b "map (\<lambda>c. fl (start c + d)) clips"] by simp
qed

lemma renders_audio_file: "renders (cfg\<lparr>audio_file := x\<rparr>) sz = renders cfg sz"
  by (simp add: renders_def split: sum.splits)

lemma renders_at_audio_file: "renders_at e (cfg\<lparr>audio_file := x\<rparr>) = renders_at e cfg"
  by (rule ext) (simp add: renders_at_def renders_audio_file split: option.splits)

lemma all_render_audio_file: "all_render e (cfg\<lparr>audio_file := x\<rparr>) = all_render e cfg"
  by (simp add: all_render_def renders_at_audio_file)

subsection \<open>Time slots\<close>

lemma snd_filter_enumerate:
  "map snd (filter (\<lambda>(j, f). P f) (enumerate i fs)) = filter P fs"
  by (induction fs arbitrary: i) simp_all

lemma sorted_wrt_fst_enumerate:
  "sorted_wrt (\<lambda>p q. fst p < fst q) (enumerate i fs)"
proof -
  have "sorted_wrt (<) (map fst (enumerate i fs))" by simp
  then show ?thesis by (simp only: sorted_wrt_map)
qed

lemma enumerate_filter_bounds:
  "(j, f) \<in> set (filter P (enumerate i fs)) \<Longrightarrow> i \<le> j \<and> j < i + length fs"
  by (auto simp: in_set_enumerate_eq)

lemma slots_disjoint:
  assumes "0 \<le> d"
  shows "sorted_wrt (\<lambda>x y. x + d \<le> y)
           (map (\<lambda>(j, f). real j * d) (filter P (enumerate i fs)))"
proof -
  have step: "real j * d + d \<le> real k * d" if "j < k" for j k :: nat
  proof -
    from that have "real j + 1 \<le> real k" by simp
    then have "(real j + 1) * d \<le> real k * d" using assms by (rule mult_right_mono)
    then show ?thesis by (simp add: algebra_simps)
  qed
  have "sorted_wrt (\<lambda>p q. fst p < fst q) (filter P (enumerate i fs))"
    by (rule sorted_wrt_filter) (rule sorted_wrt_fst_enumerate)
  then have "sorted_wrt (\<lambda>p q. (case p of (j, f) \<Rightarrow> real j * d) + d
                              \<le> (case q of (j, f) \<Rightarrow> real j * d))
               (filter P (enumerate i fs))"
    by (rule sorted_wrt_mono_rel [rotated]) (auto simp: step)
  then show ?thesis by (simp add: sorted_wrt_map)
qed

lemma enumerate_starts:
  "map (\<lambda>(j, f). real j * d) (enumerate i fs) = map (\<lambda>k. real k * d) [i..<i + length fs]"
proof -
  have "map (\<lambda>(j, f). real j * d) (enumerate i fs)
          = map ((\<lambda>k. real k * d) \<circ> fst) (enumerate i fs)"
    by (rule map_cong) auto
  also have "\<dots> = map (\<lambda>k. real k * d) (map fst (enumerate i fs))"
    by (simp only: map_map)
  also have "\<dots> = map (\<lambda>k. real k * d) [i..<i + length fs]"
    by (simp only: map_fst_enumerate)
  finally show ?thesis .
qed

lemma sorted_surviving: "sorted (map snd (surviving e cfg))"
proof (cases "listdir e")
  case None
  then show ?thesis by (simp add: surviving_def image_files_def)
next
  case (Some l)
  then show ?thesis
    by (simp add: surviving_def image_files_def snd_filter_enumerate image_files_of_def
        sorted_wrt_filter)
qed

text \<open>Products and sums of whole numbers up to \<open>2^53\<close> are exact in floating point.\<close>

lemma fl_whole_product:
  assumes "d = real_of_int n" "0 \<le> n" "int k * n \<le> 2 ^ 53"
  shows "fl (real k * d) = real k * d"
proof -
  have e: "real k * real_of_int n = real_of_int (int k * n)" by simp
  have "0 \<le> int k * n" using assms(2) by simp
  then have "\<bar>int k * n\<bar> \<le> 2 ^ 53" using assms(3) by simp
  then show ?thesis unfolding assms(1) e by (rule fl_of_int)
qed

lemma whole_slots:
  assumes d: "d = real_of_int n" "0 \<le> n" "int m * n \<le> 2 ^ 53"
    and j: "j < m"
  shows "fl (real j * d) = real j * d" "fl (real j * d + d) = real j * d + d"
    "real j * d + d \<le> real m * d"
proof -
  have "int (Suc j) \<le> int m" using j by simp
  then have le: "int (Suc j) * n \<le> int m * n"
    using d(2) by (rule mult_right_mono)
  then have s: "int (Suc j) * n \<le> 2 ^ 53" using d(3) by linarith
  have "int j \<le> int (Suc j)" by simp
  then have "int j * n \<le> int (Suc j) * n" using d(2) by (rule mult_right_mono)
  then have "int j * n \<le> 2 ^ 53" using s by linarith
  then show "fl (real j * d) = real j * d" by (rule fl_whole_product [OF d(1) d(2)])
  have sj: "real (Suc j) * d = real j * d + d" by (simp add: algebra_simps)
  have "fl (real (Suc j) * d) = real (Suc j) * d" by (rule fl_whole_product [OF d(1) d(2) s])
  then show "fl (real j * d + d) = real j * d + d" unfolding sj .
  have "real_of_int (int (Suc j) * n) \<le> real_of_int (int m * n)"
    using le by (simp only: of_int_le_iff)
  then have "real (Suc j) * d \<le> real m * d" unfolding d(1) by simp
  then show "real j * d + d \<le> real m * d" unfolding sj .
qed

text \<open>With a whole per-image duration the slots of a run are exact.\<close>

lemma exact_slots:
  assumes d: "d = real_of_int n" "0 \<le> n" "int (length fs) * n \<le> 2 ^ 53"
    and starts: "map start clips = map (\<lambda>(j, f). fl (real j * d)) (filter P (enumerate 0 fs))"
    and ends: "list_all (\<lambda>c. clip_duration c = Some d \<and> clip_end c = Some (fl (start c + d))) clips"
  shows "map start clips = map (\<lambda>(j, f). real j * d) (filter P (enumerate 0 fs))"
    and "list_all (\<lambda>c. clip_duration c = Some d \<and> clip_end c = Some (start c + d)) clips"
    and "video_duration (CompositeVideoClip (ColorClip res col (fl (real (length fs) * d))) clips res)
           = Some (real (length fs) * d)"
proof -
  have in_range: "j < length fs" if "(j, f) \<in> set (filter P (enumerate 0 fs))" for j f
    using enumerate_filter_bounds [OF that] by simp
  show st: "map start clips = map (\<lambda>(j, f). real j * d) (filter P (enumerate 0 fs))"
    unfolding starts
  proof (rule map_cong [OF refl])
    fix x assume x: "x \<in> set (filter P (enumerate 0 fs))"
    obtain j f where jf: "x = (j, f)" by (cases x)
    with x have "j < length fs" using in_range by blast
    from whole_slots(1) [OF d this] show
      "(case x of (j, f) \<Rightarrow> fl (real j * d)) = (case x of (j, f) \<Rightarrow> real j * d)"
      by (simp add: jf)
  qed
  have at: "\<exists>j. j < length fs \<and> start c = real j * d" if c: "c \<in> set clips" for c
  proof -
    from c have "start c \<in> set (map start clips)" by simp
    then obtain j f where "(j, f) \<in> set (filter P (enumerate 0 fs))" "start c = real j * d"
      unfolding st by auto
    then show ?thesis using in_range by blast
  qed
  show en: "list_all (\<lambda>c. clip_duration c = Some d \<and> clip_end c = Some (start c + d)) clips"
    unfolding list_all_iff
  proof
    fix c assume c: "c \<in> set clips"
    from at [OF c] obtain j where j: "j < length fs" "start c = real j * d" by blast
    have "clip_duration c = Some d" "clip_end c = Some (fl (start c + d))"
      using ends c by (simp_all add: list_all_iff)
    then show "clip_duration c = Some d \<and> clip_end c = Some (start c + d)"
      using whole_slots(2) [OF d j(1)] j(2) by simp
  qed
  have bound: "the (clip_end c) \<le> real (length fs) * d" if c: "c \<in> set clips" for c
  proof -
    from at [OF c] obtain j where j: "j < length fs" "start c = real j * d" by blast
    have "clip_end c = Some (start c + d)" using en c by (simp add: list_all_iff)
    then show ?thesis using whole_slots(3) [OF d j(1)] j(2) by simp
  qed
  have total: "fl (real (length fs) * d) = real (length fs) * d"
    using d by (intro fl_whole_product)
  have all: "list_all (\<lambda>c. clip_end c \<noteq> None) clips"
    using en by (simp add: list_all_iff)
  have "fold max (map (\<lambda>c. the (clip_end c)) clips) (real (length fs) * d) = real (length fs) * d"
    by (rule fold_max_bounded) (use bound in auto)
  then show "video_duration
      (CompositeVideoClip (ColorClip res col (fl (real (length fs) * d))) clips res)
        = Some (real (length fs) * d)"
    using all by (simp add: CompositeVideoClip_def ColorClip_def total)
qed

lemma whole_duration:
  assumes "d \<in> \<int>" "0 \<le> d" "real m * d \<le> 2 ^ 53"
  shows "\<exists>n::int. d = real_of_int n \<and> 0 \<le> n \<and> int m * n \<le> 2 ^ 53"
proof -
  from assms(1) obtain n :: int where n: "d = real_of_int n" by (rule Ints_cases)
  have "0 \<le> n" using assms(2) n by simp
  moreover have "real_of_int (int m * n) \<le> real_of_int (2 ^ 53)" using assms(3) n by simp
  then have "int m * n \<le> 2 ^ 53" by (simp only: of_int_le_iff)
  ultimately show ?thesis using n by blast
qed

text \<open>
  Claim C1, as amended. Let the folder hold \<open>m \<ge> 1\<close> matched files, sorted, and no
  decodable image make lines 36 to 52 raise. The clip of the surviving file at index \<open>j\<close>
  of the sorted list starts at the float product \<open>j * d\<close>, lasts \<open>d\<close> and ends at the float
  sum of the two; the clips follow the sorted file names. When the per-image duration \<open>d\<close>
  is a positive whole number with \<open>m * d \<le> 2^53\<close>, these products and sums are exact: the
  clip at index \<open>j\<close> fills the slot from \<open>j * d\<close> to \<open>j * d + d\<close>, the clips never overlap,
  and the total duration is \<open>m * d\<close>. When moreover every matched file decodes, the
  \<open>n = m\<close> clips start at \<open>0, d, 2d, ...\<close>, each clip starts where the previous one ends,
  and the total duration is \<open>n * d\<close>.
\<close>

theorem clip_slots:
  assumes ne: "image_files e \<noteq> []"
    and ok: "all_render e cfg"
  shows "map start (clips_of (create_video_from_images e cfg))
           = map (\<lambda>(j, f). fl (real j * duration cfg)) (surviving e cfg) \<and>
         map content (clips_of (create_video_from_images e cfg))
           = map (\<lambda>f. Picture (path_join (image_folder cfg) f)) (map snd (surviving e cfg)) \<and>
         sorted (map snd (surviving e cfg)) \<and>
         list_all (\<lambda>c. clip_duration c = Some (duration cfg) \<and>
                       clip_end c = Some (fl (start c + duration cfg)))
           (clips_of (create_video_from_images e cfg)) \<and>
         (duration cfg \<in> \<int> \<and> 0 < duration cfg \<and>
          real (length (image_files e)) * duration cfg \<le> 2 ^ 53 \<longrightarrow>
            map start (clips_of (create_video_from_images e cfg))
              = map (\<lambda>(j, f). real j * duration cfg) (surviving e cfg) \<and>
            list_all (\<lambda>c. clip_end c = Some (start c + duration cfg))
              (clips_of (create_video_from_images e cfg)) \<and>
            sorted_wrt (\<lambda>a b. start a + duration cfg \<le> start b)
              (clips_of (create_video_from_images e cfg)) \<and>
            total_duration_of (create_video_from_images e cfg)
              = Some (real (length (image_files e)) * duration cfg) \<and>
            (list_all (decodes e cfg) (image_files e) \<longrightarrow>
               map start (clips_of (create_video_from_images e cfg))
                 = map (\<lambda>k. real k * duration cfg)
                     [0..<length (clips_of (create_video_from_images e cfg))] \<and>
               (\<forall>k. Suc k < length (clips_of (create_video_from_images e cfg)) \<longrightarrow>
                  start (clips_of (create_video_from_images e cfg) ! Suc k)
                    = start (clips_of (create_video_from_images e cfg) ! k) + duration cfg) \<and>
               total_duration_of (create_video_from_images e cfg)
                 = Some (real (length (clips_of (create_video_from_images e cfg)))
                          * duration cfg)))"
proof -
  let ?R = "create_video_from_images e cfg"
  let ?fs = "image_files e"
  let ?d = "duration cfg"
  from run_facts [OF ne ok] obtain clips v where f:
    "v = CompositeVideoClip
           (ColorClip (resolution cfg) (background_color cfg) (fl (real (length ?fs) * ?d)))
           clips (resolution cfg)"
    "clips_of ?R = clips"
    "map start clips = map (\<lambda>(j, f). fl (real j * ?d)) (surviving e cfg)"
    "map content clips =
       map (\<lambda>f. Picture (path_join (image_folder cfg) f)) (filter (decodes e cfg) ?fs)"
    "list_all (\<lambda>c. clip_duration c = Some ?d \<and> clip_end c = Some (fl (start c + ?d))) clips"
    "total_duration_of ?R = video_duration v"
    by blast
  have snd_s: "map snd (surviving e cfg) = filter (decodes e cfg) ?fs"
    by (simp add: surviving_def snd_filter_enumerate)
  have exact: "map start clips = map (\<lambda>(j, f). real j * ?d) (surviving e cfg) \<and>
      list_all (\<lambda>c. clip_end c = Some (start c + ?d)) clips \<and>
      sorted_wrt (\<lambda>a b. start a + ?d \<le> start b) clips \<and>
      total_duration_of ?R = Some (real (length ?fs) * ?d) \<and>
      (list_all (decodes e cfg) ?fs \<longrightarrow>
         map start clips = map (\<lambda>k. real k * ?d) [0..<length clips] \<and>
         (\<forall>k. Suc k < length clips \<longrightarrow> start (clips ! Suc k) = start (clips ! k) + ?d) \<and>
         total_duration_of ?R = Some (real (length clips) * ?d))"
    if whole: "?d \<in> \<int>" "0 < ?d" "real (length ?fs) * ?d \<le> 2 ^ 53"
  proof -
    from whole_duration [OF whole(1) _ whole(3)] whole(2)
    obtain n :: int where n: "?d = real_of_int n" "0 \<le> n" "int (length ?fs) * n \<le> 2 ^ 53"
      by auto
    note ex = exact_slots(1,2) [OF n f(3) [unfolded surviving_def] f(5)]
      exact_slots(3) [OF n f(3) [unfolded surviving_def] f(5),
        where res = "resolution cfg" and col = "background_color cfg"]
    have st: "map start clips = map (\<lambda>(j, f). real j * ?d) (surviving e cfg)"
      using ex(1) by (simp add: surviving_def)
    have en: "list_all (\<lambda>c. clip_end c = Some (start c + ?d)) clips"
      using ex(2) by (simp add: list_all_iff)
    have total: "total_duration_of ?R = Some (real (length ?fs) * ?d)"
      unfolding f(6) f(1) by (rule ex(3))
    have "sorted_wrt (\<lambda>x y. x + ?d \<le> y) (map start clips)"
      unfolding st surviving_def using whole(2) by (intro slots_disjoint) simp
    then have disj: "sorted_wrt (\<lambda>a b. start a + ?d \<le> start b) clips"
      by (simp add: sorted_wrt_map)
    have full: "map start clips = map (\<lambda>k. real k * ?d) [0..<length clips] \<and>
        (\<forall>k. Suc k < length clips \<longrightarrow> start (clips ! Suc k) = start (clips ! k) + ?d) \<and>
        total_duration_of ?R = Some (real (length clips) * ?d)"
      if all: "list_all (decodes e cfg) ?fs"
    proof -
      from all have id: "surviving e cfg = enumerate 0 ?fs"
        by (auto simp: surviving_def list_all_iff in_set_enumerate_eq intro!: filter_True)
      have "length (map start clips) = length ?fs"
        unfolding st id by simp
      then have len: "length clips = length ?fs" by simp
      have st': "map start clips = map (\<lambda>k. real k * ?d) [0..<length clips]"
        unfolding st id len using enumerate_starts [of ?d 0 ?fs] by simp
      have nth: "start (clips ! k) = real k * ?d" if "k < length clips" for k
      proof -
        have "start (clips ! k) = map start clips ! k" using that by simp
        also have "\<dots> = real k * ?d" unfolding st' using that by simp
        finally show ?thesis .
      qed
      have "\<forall>k. Suc k < length clips \<longrightarrow> start (clips ! Suc k) = start (clips ! k) + ?d"
        by (auto simp: nth algebra_simps)
      then show ?thesis using st' total len by simp
    qed
    show ?thesis using st en disj total full by blast
  qed
  have c2: "map content clips
      = map (\<lambda>f. Picture (path_join (image_folder cfg) f)) (map snd (surviving e cfg))"
    using f(4) snd_s by simp
  show ?thesis
    unfolding f(2) using f(3) c2 sorted_surviving [of e cfg] f(5) exact by blast
qed

theorem clip_slots_witness:
  "map start (clips_of (create_video_from_images env_two_good cfg_static)) = [0, 5] \<and>
   list_all (\<lambda>c. clip_end c = Some (start c + 5))
     (clips_of (create_video_from_images env_two_good cfg_static)) \<and>
   total_duration_of (create_video_from_images env_two_good cfg_static) = Some 10"
proof -
  have ne: "image_files env_two_good \<noteq> []"
    by (simp add: image_files_def env_two_good_def files_two_good)
  have ok: "all_render env_two_good cfg_static" by (rule all_render_samples)
  have fs: "image_files env_two_good = [''a.png'', ''b.jpg'']"
    by (simp add: image_files_def env_two_good_def files_two_good)
  have d: "duration cfg_static = 5" by (simp add: cfg_static_def)
  have s: "surviving env_two_good cfg_static = [(0, ''a.png''), (1, ''b.jpg'')]"
    unfolding surviving_def fs
    by (simp add: decodes_def cfg_static_def env_two_good_def path_join_def)
  show ?thesis
    using clip_slots [OF ne ok] unfolding fs d s by (simp add: fl_numeral)
qed

text \<open>
  With a file that does not decode the claim as stated fails: of \<open>a.png\<close> and \<open>b.png\<close>
  only \<open>b.png\<close> survives, so \<open>n = 1\<close>, but its clip starts at 5, not at \<open>0 * 5\<close>, and
  the total duration is 10, not \<open>1 * 5\<close>.
\<close>

theorem survivor_index_counterexample:
  "length (clips_of (create_video_from_images env_one_corrupt cfg_static)) = 1 \<and>
   start (clips_of (create_video_from_images env_one_corrupt cfg_static) ! 0) \<noteq> real 0 * 5 \<and>
   total_duration_of (create_video_from_images env_one_corrupt cfg_static)
     \<noteq> Some (real (length (clips_of (create_video_from_images env_one_corrupt cfg_static))) * 5)"
  by (simp add: run_defs files_one_corrupt env_one_corrupt_def cfg_static_def)

subsection \<open>The length of the video\<close>













subsection \<open>Images that do not decode\<close>







subsection \<open>Audio reconciliation\<close>

lemma py_fmod_pos:
  assumes "0 \<le> t" "0 < d"
  shows "\<exists>k::nat. py_fmod t d = Inr (t - real k * d) \<and> 0 \<le> t - real k * d \<and> t - real k * d < d"
proof -
  define q where "q = \<lfloor>t / d\<rfloor>"
  have q0: "0 \<le> q" using assms by (simp add: q_def)
  have lo: "real_of_int q \<le> t / d" by (simp add: q_def)
  have hi: "t / d < real_of_int q + 1" unfolding q_def by linarith
  have a: "real_of_int q * d \<le> t"
    using lo pos_le_divide_eq [OF assms(2), of "real_of_int q" t] by simp
  have b: "t < (real_of_int q + 1) * d"
    using hi pos_divide_less_eq [OF assms(2), of t "real_of_int q + 1"] by simp
  have pi: "py_int (t / d) = q" using assms by (simp add: py_int_def q_def)
  define m where "m = t - d * real_of_int q"
  have m: "0 \<le> m" "m < d" using a b by (simp_all add: m_def algebra_simps)
  have "py_fmod t d = Inr m"
    using assms(2) m by (simp add: py_fmod_def pi m_def [symmetric] Let_def)
  moreover have "real (nat q) = real_of_int q" using q0 by simp
  ultimately show ?thesis
    using m by (intro exI [of _ "nat q"]) (simp add: m_def algebra_simps)
qed

text \<open>
  Claim C7. Let the folder hold a matched file, no decodable image make lines 36 to 52
  raise, the per-image duration be non-negative, and the audio file exist and decode to a
  track of positive duration \<open>ad\<close>. Then the video has a duration \<open>T\<close> and the track set on
  it has exactly that duration. When \<open>ad < T\<close> the track is looped: at every time \<open>t \<ge> 0\<close>
  one hears the instant \<open>t - k * ad\<close> of the file, for the number \<open>k\<close> of whole passes that
  fit into \<open>t\<close>, so that the instant lies within the track. When \<open>ad \<ge> T\<close> the track is
  trimmed: at time \<open>t\<close> one hears the instant \<open>t\<close> of the file, for the duration \<open>T\<close>.
\<close>

theorem audio_looped_or_trimmed:
  assumes ne: "image_files e \<noteq> []"
    and ok: "all_render e cfg"
    and d: "0 \<le> duration cfg"
    and af: "audio_file cfg = Some p" "p \<noteq> []" "path_exists e p"
    and ld: "load_audio e p = Some ad" "0 < ad"
  shows "total_duration_of (create_video_from_images e cfg) \<noteq> None \<and>
         map_option audio_duration (audio_of (create_video_from_images e cfg))
           = total_duration_of (create_video_from_images e cfg) \<and>
         (\<forall>T t. total_duration_of (create_video_from_images e cfg) = Some T \<and> ad < T \<and> 0 \<le> t \<longrightarrow>
            (\<exists>k::nat. map_option (\<lambda>a. source_time a t)
                         (audio_of (create_video_from_images e cfg))
                       = Some (Inr (t - real k * ad)) \<and>
                     0 \<le> t - real k * ad \<and> t - real k * ad < ad)) \<and>
         (\<forall>T t. total_duration_of (create_video_from_images e cfg) = Some T \<and> T \<le> ad \<longrightarrow>
            map_option (\<lambda>a. source_time a t) (audio_of (create_video_from_images e cfg))
              = Some (Inr t))"
proof -
  let ?R = "create_video_from_images e cfg"
  let ?d = "duration cfg"
  let ?b = "fl (real (length (image_files e)) * ?d)"
  from run_facts [OF ne ok] obtain clips v where f:
    "v = CompositeVideoClip (ColorClip (resolution cfg) (background_color cfg) ?b)
           clips (resolution cfg)"
    "list_all (\<lambda>c. clip_duration c = Some ?d \<and> clip_end c = Some (fl (start c + ?d))) clips"
    "total_duration_of ?R = video_duration v"
    "audio_of ?R = audio (fst (add_audio e cfg v))"
    by blast
  from composite_has_duration [OF f(2), of "resolution cfg" "background_color cfg" ?b]
  obtain T where T: "video_duration v = Some T" "?b \<le> T"
    unfolding f(1) by blast
  have "0 \<le> real (length (image_files e)) * ?d" using d by simp
  then have "0 \<le> ?b" by (rule fl_nonneg)
  then have T0: "0 \<le> T" using T(2) by linarith
  define a where "a = (if ad < T then loop T (AudioFileClip ad)
                       else \<lparr>audio_duration = T, source_time = (\<lambda>t. Inr t)\<rparr>)"
  have rec: "reconcile T (AudioFileClip ad) = Some a"
    using T0 ld(2) by (simp add: reconcile_def subclip_def AudioFileClip_def a_def)
  have "audio (fst (add_audio e cfg v)) = Some a"
    using af ld(1) T(1) rec by (simp add: add_audio_def set_audio_def)
  then have au: "audio_of ?R = Some a" using f(4) by simp
  have tot: "total_duration_of ?R = Some T" using f(3) T(1) by simp
  have dur: "audio_duration a = T"
    using ld(2) T0 by (auto simp: a_def loop_def AudioFileClip_def Let_def)
  have looped: "\<exists>k::nat. source_time a t = Inr (t - real k * ad) \<and>
      0 \<le> t - real k * ad \<and> t - real k * ad < ad" if "ad < T" "0 \<le> t" for t
  proof -
    from py_fmod_pos [OF that(2) ld(2)] obtain k :: nat where k:
      "py_fmod t ad = Inr (t - real k * ad)" "0 \<le> t - real k * ad" "t - real k * ad < ad"
      by blast
    have "source_time a t = Inr (t - real k * ad)"
      using that(1) k(1) by (simp add: a_def loop_def AudioFileClip_def Let_def)
    with k(2,3) show ?thesis by blast
  qed
  have trimmed: "source_time a t = Inr t" if "T \<le> ad" for t
    using that by (simp add: a_def)
  show ?thesis
    unfolding au tot using dur looped trimmed by simp
qed

theorem audio_looped_or_trimmed_witness:
  "map_option audio_duration (audio_of (create_video_from_images env_two_good cfg_audio))
     = Some 10 \<and>
   map_option (\<lambda>a. source_time a 9)
     (audio_of (create_video_from_images env_two_good cfg_audio)) = Some (Inr 1) \<and>
   map_option audio_duration (audio_of (create_video_from_images env_two_good cfg_long_audio))
     = Some 10 \<and>
   map_option (\<lambda>a. source_time a 9)
     (audio_of (create_video_from_images env_two_good cfg_long_audio)) = Some (Inr 9)"
proof -
  have ne: "image_files env_two_good \<noteq> []"
    by (simp add: image_files_def env_two_good_def files_two_good)
  have ok: "all_render env_two_good cfg_audio" "all_render env_two_good cfg_long_audio"
    unfolding cfg_audio_def cfg_long_audio_def all_render_audio_file
    by (rule all_render_samples)+
  have short: "audio_file cfg_audio = Some ''song.mp3''" "''song.mp3'' \<noteq> []"
    "path_exists env_two_good ''song.mp3''" "load_audio env_two_good ''song.mp3'' = Some 4"
    "0 \<le> duration cfg_audio"
    by (simp_all add: cfg_audio_def cfg_static_def env_two_good_def)
  have long: "audio_file cfg_long_audio = Some ''long.mp3''" "''long.mp3'' \<noteq> []"
    "path_exists env_two_good ''long.mp3''" "load_audio env_two_good ''long.mp3'' = Some 12"
    "0 \<le> duration cfg_long_audio"
    by (simp_all add: cfg_long_audio_def cfg_static_def env_two_good_def)
  have tot: "total_duration_of (create_video_from_images env_two_good cfg_audio) = Some 10"
    "total_duration_of (create_video_from_images env_two_good cfg_long_audio) = Some 10"
    by (simp_all add: run_defs files_two_good env_two_good_def cfg_audio_def
        cfg_long_audio_def cfg_static_def reconcile_def loop_def subclip_def
        AudioFileClip_def set_audio_def)
  have p4: "(0::real) < 4" and p12: "(0::real) < 12" by simp_all
  note short_run = audio_looped_or_trimmed [OF ne ok(1) short(5) short(1-4) p4]
  note long_run = audio_looped_or_trimmed [OF ne ok(2) long(5) long(1-4) p12]
  from short_run have a1:
    "map_option audio_duration (audio_of (create_video_from_images env_two_good cfg_audio))
       = Some 10"
    unfolding tot(1) by blast
  from short_run have
    "\<forall>T t. total_duration_of (create_video_from_images env_two_good cfg_audio) = Some T
         \<and> 4 < T \<and> 0 \<le> t \<longrightarrow>
       (\<exists>k::nat. map_option (\<lambda>a. source_time a t)
           (audio_of (create_video_from_images env_two_good cfg_audio))
             = Some (Inr (t - real k * 4)) \<and> 0 \<le> t - real k * 4 \<and> t - real k * 4 < 4)"
    by blast
  from this [rule_format, of 10 9] tot(1) obtain k :: nat where k:
    "map_option (\<lambda>a. source_time a 9)
        (audio_of (create_video_from_images env_two_good cfg_audio))
          = Some (Inr (9 - real k * 4))" "0 \<le> 9 - real k * 4" "9 - real k * 4 < (4::real)"
    by auto
  from k(2,3) have "k = 2" by linarith
  with k(1) have a3: "map_option (\<lambda>a. source_time a 9)
        (audio_of (create_video_from_images env_two_good cfg_audio)) = Some (Inr 1)"
    by simp
  from long_run have b1:
    "map_option audio_duration
        (audio_of (create_video_from_images env_two_good cfg_long_audio)) = Some 10"
    unfolding tot(2) by blast
  from long_run have
    "\<forall>T t. total_duration_of (create_video_from_images env_two_good cfg_long_audio) = Some T
         \<and> T \<le> 12 \<longrightarrow>
       map_option (\<lambda>a. source_time a t)
         (audio_of (create_video_from_images env_two_good cfg_long_audio)) = Some (Inr t)"
    by blast
  from this [rule_format, of 10 9] tot(2) have b2:
    "map_option (\<lambda>a. source_time a 9)
        (audio_of (create_video_from_images env_two_good cfg_long_audio)) = Some (Inr 9)"
    by simp
  show ?thesis using a1 a3 b1 b2 by simp
qed

subsection \<open>Audio that cannot be used\<close>

lemma animate_audio_file: "animate (cfg\<lparr>audio_file := x\<rparr>) i c = animate cfg i c"
  by (simp add: animate_def split: sum.splits)

lemma build_clips_audio_file:
  "build_clips e (cfg\<lparr>audio_file := x\<rparr>) i fs = build_clips e cfg i fs"
  by (induction fs arbitrary: i)
    (simp_all add: animate_audio_file Let_def split: option.splits sum.splits)

lemma build_clips_prints:
  "build_clips e cfg i fs = Inr (clips, out) \<Longrightarrow> ErrorAddingAudio \<notin> set out"
proof (induction fs arbitrary: i clips out)
  case Nil
  then show ?case by simp
next
  case (Cons f fs)
  then show ?case
    by (auto simp: Let_def split: option.splits sum.splits prod.splits)
qed

lemma add_audio_failed:
  assumes "audio_file cfg = Some p" "p = [] \<or> \<not> path_exists e p \<or> load_audio e p = None"
  shows "add_audio e cfg v = (v, if p \<noteq> [] \<and> path_exists e p then [ErrorAddingAudio] else [])"
  using assms by (auto simp: add_audio_def)

text \<open>
  Claim C8, as amended. When an audio path is given and the file is missing (or the path is
  empty), the run goes on without audio and prints nothing about it; when the file exists
  and fails to load or decode, the run prints \<open>Error adding audio\<close> once it reaches the
  audio block, and goes on without audio. In both cases the run is what it is when no audio
  file is given: it raises the same exception or none, reaches the encoder or not, saves or
  not, with the same layers and the same duration. In particular, when some file matches and
  no image makes lines 36 to 52 raise, the encoder is invoked.
\<close>

theorem audio_failure_is_silent:
  assumes af: "audio_file cfg = Some p"
    and fail: "p = [] \<or> \<not> path_exists e p \<or> load_audio e p = None"
  shows "raised_of (create_video_from_images e cfg)
           = raised_of (create_video_from_images e (cfg\<lparr>audio_file := None\<rparr>)) \<and>
         encoder_called_of (create_video_from_images e cfg)
           = encoder_called_of (create_video_from_images e (cfg\<lparr>audio_file := None\<rparr>)) \<and>
         saved_of (create_video_from_images e cfg)
           = saved_of (create_video_from_images e (cfg\<lparr>audio_file := None\<rparr>)) \<and>
         layers_of (create_video_from_images e cfg)
           = layers_of (create_video_from_images e (cfg\<lparr>audio_file := None\<rparr>)) \<and>
         total_duration_of (create_video_from_images e cfg)
           = total_duration_of (create_video_from_images e (cfg\<lparr>audio_file := None\<rparr>)) \<and>
         audio_of (create_video_from_images e cfg) = None \<and>
         (p = [] \<or> \<not> path_exists e p \<longrightarrow>
            printed_of (create_video_from_images e cfg)
              = printed_of (create_video_from_images e (cfg\<lparr>audio_file := None\<rparr>))) \<and>
         (p \<noteq> [] \<and> path_exists e p \<and> encoder_called_of (create_video_from_images e cfg) \<longrightarrow>
            ErrorAddingAudio \<in> set (printed_of (create_video_from_images e cfg))) \<and>
         ErrorAddingAudio
           \<notin> set (printed_of (create_video_from_images e (cfg\<lparr>audio_file := None\<rparr>))) \<and>
         (image_files e \<noteq> [] \<and> all_render e cfg \<longrightarrow>
            encoder_called_of (create_video_from_images e cfg) \<and>
            saved_of (create_video_from_images e cfg) = (\<not> encoder_raises e))"
proof -
  let ?cfg0 = "cfg\<lparr>audio_file := None\<rparr>"
  let ?R = "create_video_from_images e cfg"
  let ?S = "create_video_from_images e ?cfg0"
  have last: "image_files e \<noteq> [] \<and> all_render e cfg \<longrightarrow>
      encoder_called_of ?R \<and> saved_of ?R = (\<not> encoder_raises e)"
    using run_facts [of e cfg] by blast
  have main: "raised_of ?R = raised_of ?S \<and> encoder_called_of ?R = encoder_called_of ?S \<and>
      saved_of ?R = saved_of ?S \<and> layers_of ?R = layers_of ?S \<and>
      total_duration_of ?R = total_duration_of ?S \<and> audio_of ?R = None \<and>
      (p = [] \<or> \<not> path_exists e p \<longrightarrow> printed_of ?R = printed_of ?S) \<and>
      (p \<noteq> [] \<and> path_exists e p \<and> encoder_called_of ?R \<longrightarrow>
         ErrorAddingAudio \<in> set (printed_of ?R)) \<and>
      ErrorAddingAudio \<notin> set (printed_of ?S)"
  proof (cases "listdir e")
    case None
    then show ?thesis
      by (simp add: create_video_from_images_def raised_of_def encoder_called_of_def
          saved_of_def layers_of_def total_duration_of_def audio_of_def printed_of_def)
  next
    case (Some l)
    show ?thesis
    proof (cases "image_files_of l = []")
      case True
      then show ?thesis using Some
        by (simp add: create_video_from_images_def raised_of_def encoder_called_of_def
            saved_of_def layers_of_def total_duration_of_def audio_of_def printed_of_def)
    next
      case False
      let ?fs = "image_files_of l"
      show ?thesis
      proof (cases "build_clips e cfg 0 ?fs")
        case (Inl err)
        then show ?thesis using Some False
          by (simp add: create_video_from_images_def build_clips_audio_file raised_of_def
              encoder_called_of_def saved_of_def layers_of_def total_duration_of_def
              audio_of_def printed_of_def)
      next
        case (Inr res)
        obtain clips out1 where res: "res = (clips, out1)" by (cases res)
        let ?v = "CompositeVideoClip
                    (ColorClip (resolution cfg) (background_color cfg)
                       (fl (real (length ?fs) * duration cfg))) clips (resolution cfg)"
        let ?am = "if p \<noteq> [] \<and> path_exists e p then [ErrorAddingAudio] else []"
        let ?wm = "fst (write_video e cfg (length clips))"
        have run: "?R = Inr \<lparr>printed = out1 @ ?am @ ?wm, timeline = Some ?v,
            encoder_called = True, saved = snd (write_video e cfg (length clips))\<rparr>"
          using Some False Inr res add_audio_failed [OF af fail, of ?v]
          by (simp add: create_video_from_images_def Let_def split: prod.splits)
        have run0: "?S = Inr \<lparr>printed = out1 @ ?wm, timeline = Some ?v,
            encoder_called = True, saved = snd (write_video e cfg (length clips))\<rparr>"
          using Some False Inr res
          by (simp add: create_video_from_images_def Let_def build_clips_audio_file
              add_audio_def write_video_def split: prod.splits)
        have "ErrorAddingAudio \<notin> set out1"
          using Inr res build_clips_prints [of e cfg 0 ?fs clips out1] by simp
        moreover have "ErrorAddingAudio \<notin> set ?wm" by (simp add: write_video_def)
        ultimately have noerr: "ErrorAddingAudio \<notin> set (out1 @ ?wm)" by simp
        have au: "audio ?v = None" by (simp add: CompositeVideoClip_def)
        show ?thesis
          unfolding run run0 using noerr au
          by (simp add: raised_of_def encoder_called_of_def saved_of_def audio_of_def
              layers_of_def total_duration_of_def printed_of_def)
      qed
    qed
  qed
  show ?thesis using main last by blast
qed

theorem audio_failure_is_silent_witness:
  "encoder_called_of (create_video_from_images env_two_good cfg_broken_audio) \<and>
   saved_of (create_video_from_images env_two_good cfg_broken_audio) \<and>
   audio_of (create_video_from_images env_two_good cfg_broken_audio) = None \<and>
   ErrorAddingAudio \<in> set (printed_of (create_video_from_images env_two_good cfg_broken_audio))"
proof -
  have af: "audio_file cfg_broken_audio = Some ''broken.mp3''"
    by (simp add: cfg_broken_audio_def)
  have fail: "''broken.mp3'' = [] \<or> \<not> path_exists env_two_good ''broken.mp3'' \<or>
      load_audio env_two_good ''broken.mp3'' = None"
    by (simp add: env_two_good_def)
  have ne: "image_files env_two_good \<noteq> []"
    by (simp add: image_files_def env_two_good_def files_two_good)
  have ok: "all_render env_two_good cfg_broken_audio"
    unfolding cfg_broken_audio_def all_render_audio_file by (rule all_render_samples)
  have ex: "path_exists env_two_good ''broken.mp3''" "\<not> encoder_raises env_two_good"
    by (simp_all add: env_two_good_def)
  show ?thesis
    using audio_failure_is_silent [OF af fail] ne ok ex by blast
qed

text \<open>
  For a missing audio file no warning is emitted: the only lines printed are the skipped
  image, the clip count and the saved file.
\<close>

theorem missing_audio_no_warning_counterexample:
  "audio_file cfg_audio = Some ''song.mp3'' \<and>
   \<not> path_exists env_one_corrupt ''song.mp3'' \<and>
   printed_of (create_video_from_images env_one_corrupt cfg_audio)
     = [ErrorLoadingImage ''pics/a.png'', CreatingVideo 1, VideoSaved ''output.mp4''] \<and>
   audio_of (create_video_from_images env_one_corrupt cfg_audio) = None"
  by (simp add: run_defs files_one_corrupt env_one_corrupt_def cfg_audio_def cfg_static_def)

subsection \<open>Templates\<close>

text \<open>
  Claim C2 (the code at a failing input). Under the zoom template, two images of 100 by 100
  on a canvas of 100 by 100 are fitted to 100 by 100. The zoom factor at local time 0 is
  0.8, so a literal zoom would show 80 by 80 at the start of a clip. The resize of line 48
  fixes every frame at the allocated size instead: the clips are 120 by 120, centred, at
  local time 0 as at local time 5.
\<close>

theorem zoom_frames_do_not_zoom:
  "max_size (100, 100) (100, 100) = Inr (100, 100) \<and>
   (py_int (zoom_factor 5 0 * 100), py_int (zoom_factor 5 0 * 100)) = (80, 80) \<and>
   map (\<lambda>c. frame_size c 0) (clips_of (create_video_from_images env_two_good cfg_zoom))
     = [(120, 120), (120, 120)] \<and>
   map (\<lambda>c. frame_size c 5) (clips_of (create_video_from_images env_two_good cfg_zoom))
     = [(120, 120), (120, 120)] \<and>
   map pos (clips_of (create_video_from_images env_two_good cfg_zoom)) = [Centre, Centre]"
  by (simp add: run_defs files_two_good env_two_good_def cfg_zoom_def cfg_static_def)

text \<open>
  Claim C9 (the code at a failing input). Under the template \<open>slide_in\<close>, an image of 100
  by 50 on a canvas of 100 by 100 is shown at its fitted size of 100 by 50 without failure,
  but at the top-left corner \<open>(0, 0)\<close>: line 50 sets no position. Centred, it would be drawn
  at \<open>(0, 25)\<close>, as the zoom branch of line 44 positions its clip.
\<close>

theorem static_clip_at_top_left:
  "map (\<lambda>c. frame_size c 0) (clips_of (create_video_from_images env_one_corrupt cfg_static))
     = [(100, 50)] \<and>
   map pos (clips_of (create_video_from_images env_one_corrupt cfg_static)) = [Coords 0 0] \<and>
   map (\<lambda>c. drawn_at (100, 100) c 0)
     (clips_of (create_video_from_images env_one_corrupt cfg_static)) = [(0, 0)] \<and>
   map (\<lambda>c. drawn_at (100, 100) (set_position Centre c) 0)
     (clips_of (create_video_from_images env_one_corrupt cfg_static)) = [(0, 25)] \<and>
   map pos (clips_of (create_video_from_images env_one_corrupt cfg_zoom)) = [Centre]"
  by (simp add: run_defs drawn_at_def py_int_def files_one_corrupt env_one_corrupt_def
      cfg_zoom_def cfg_static_def)

subsection \<open>The empty asset set\<close>

text \<open>
  Claim C5 (the code at a failing input). One file matches and fails to decode, so no asset
  survives. The guard of lines 19 to 21 looks at the matched names only: the run prints the
  skipped image, builds a timeline of the background alone, five seconds long, and the
  encoder is invoked on it and saves it.
\<close>

theorem all_corrupt_still_encodes:
  "image_files env_all_corrupt = [''a.png''] \<and>
   filter (decodes env_all_corrupt cfg_static) (image_files env_all_corrupt) = [] \<and>
   length (clips_of (create_video_from_images env_all_corrupt cfg_static)) = 0 \<and>
   encoder_called_of (create_video_from_images env_all_corrupt cfg_static) \<and>
   saved_of (create_video_from_images env_all_corrupt cfg_static) \<and>
   printed_of (create_video_from_images env_all_corrupt cfg_static)
     = [ErrorLoadingImage ''pics/a.png'', CreatingVideo 0, VideoSaved ''output.mp4''] \<and>
   total_duration_of (create_video_from_images env_all_corrupt cfg_static) = Some 5"
  by (simp add: run_defs files_all_corrupt env_all_corrupt_def cfg_static_def decodes_def)

end
